theory Spec2Isabelle
  imports Main
begin

section \<open>JavaScript values and built-in operations\<close>

text \<open>
  The converter (\<^verbatim>\<open>src/electron/ach-converter.js\<close>) works on the values that a
  worksheet cell can yield: \<^verbatim>\<open>null\<close> for an absent cell, a number, or a string.

  Numbers: the numeric cells of a payment sheet are amounts and identifiers with at most
  two decimal places, of a size that a double holds to the cent. A number is carried as
  its count of hundredths, an \<open>int\<close>: \<open>JNum 5025\<close> is \<^verbatim>\<open>50.25\<close> and \<open>JNum 700\<close> is
  \<^verbatim>\<open>7\<close>. On these values \<^verbatim>\<open>toString\<close>, \<^verbatim>\<open>toFixed(2)\<close> and truthiness are what is
  written below; addition is exact, the binary rounding of IEEE-754 arithmetic being no
  part of this model.

  Strings: a \<open>string\<close> is the list of the code units of the JavaScript string, so
  \<open>length\<close> is \<^verbatim>\<open>.length\<close>.

  Exceptions: a call that can throw returns \<open>error + 'a\<close>, with \<open>Inl\<close> the exception.
\<close>

datatype error = TypeError | RangeError

type_synonym number = int

datatype jsval = JNull | JNum number | JStr string

definition bindE :: "error + 'a \<Rightarrow> ('a \<Rightarrow> error + 'b) \<Rightarrow> error + 'b" where
  "bindE m f = (case m of Inl e \<Rightarrow> Inl e | Inr x \<Rightarrow> f x)"

definition digit_char :: "nat \<Rightarrow> char" where
  "digit_char d = ''0123456789'' ! d"

fun digits :: "nat \<Rightarrow> string" where
  "digits n = (if n < 10 then [digit_char n] else digits (n div 10) @ [digit_char (n mod 10)])"

declare digits.simps [simp del]

text \<open>\<^verbatim>\<open>whole k\<close> is the JavaScript number of the non-negative integer \<open>k\<close> (a counter).\<close>

definition whole :: "nat \<Rightarrow> jsval" where
  "whole k = JNum (100 * int k)"

definition sign_text :: "number \<Rightarrow> string" where
  "sign_text x = (if x < 0 then ''-'' else '''')"

text \<open>\<^verbatim>\<open>Number.prototype.toString()\<close>: the shortest decimal form.\<close>

definition Number_toString :: "number \<Rightarrow> string" where
  "Number_toString x =
     (let f = nat \<bar>x\<bar> mod 100 in
      sign_text x @ digits (nat \<bar>x\<bar> div 100) @
      (if f = 0 then ''''
       else if f mod 10 = 0 then ''.'' @ [digit_char (f div 10)]
       else ''.'' @ [digit_char (f div 10), digit_char (f mod 10)]))"

text \<open>\<^verbatim>\<open>Number.prototype.toFixed(2)\<close>: always two decimals.\<close>

definition Number_toFixed2 :: "number \<Rightarrow> string" where
  "Number_toFixed2 x =
     (let f = nat \<bar>x\<bar> mod 100 in
      sign_text x @ digits (nat \<bar>x\<bar> div 100) @ ''.'' @ [digit_char (f div 10), digit_char (f mod 10)])"

text \<open>The method call \<^verbatim>\<open>v.toString()\<close>; on \<^verbatim>\<open>null\<close> it throws a TypeError.\<close>

fun toString :: "jsval \<Rightarrow> error + string" where
  "toString JNull = Inl TypeError"
| "toString (JNum x) = Inr (Number_toString x)"
| "toString (JStr s) = Inr s"

text \<open>The method call \<^verbatim>\<open>v.toFixed(2)\<close>; only a number has the method.\<close>

fun toFixed2 :: "jsval \<Rightarrow> error + string" where
  "toFixed2 (JNum x) = Inr (Number_toFixed2 x)"
| "toFixed2 JNull = Inl TypeError"
| "toFixed2 (JStr s) = Inl TypeError"

text \<open>\<^verbatim>\<open>String.prototype.repeat(k)\<close> throws a RangeError when the count is negative.\<close>

definition repeat :: "string \<Rightarrow> int \<Rightarrow> error + string" where
  "repeat s k = (if k < 0 then Inl RangeError else Inr (concat (replicate (nat k) s)))"

text \<open>\<^verbatim>\<open>s.replace(".", "")\<close> removes the first full stop only.\<close>

definition replace_dot :: "string \<Rightarrow> string" where
  "replace_dot s = remove1 (CHR ''.'') s"

text \<open>
  \<^verbatim>\<open>[e1, ..., en].join("")\<close>: the elements are evaluated from left to right, and the
  first exception leaves the expression.
\<close>

fun join :: "(error + string) list \<Rightarrow> error + string" where
  "join [] = Inr ''''"
| "join (Inl e # xs) = Inl e"
| "join (Inr s # xs) = bindE (join xs) (\<lambda>t. Inr (s @ t))"

text \<open>Truthiness: \<^verbatim>\<open>!v\<close> holds for \<^verbatim>\<open>null\<close>, the number 0 and the empty string.\<close>

fun falsy :: "jsval \<Rightarrow> bool" where
  "falsy JNull = True"
| "falsy (JNum x) = (x = 0)"
| "falsy (JStr s) = (s = '''')"

text \<open>
  \<^verbatim>\<open>v == "y"\<close>: a string is compared as it is; \<^verbatim>\<open>null\<close> loosely equals only
  \<^verbatim>\<open>null\<close> and \<^verbatim>\<open>undefined\<close>; a number is compared with the number of \<^verbatim>\<open>"y"\<close>,
  which is NaN and equals nothing.
\<close>

fun eq_y :: "jsval \<Rightarrow> bool" where
  "eq_y (JStr s) = (s = ''y'')"
| "eq_y JNull = False"
| "eq_y (JNum x) = False"

text \<open>
  The operator \<^verbatim>\<open>+\<close>: with a string on either side it concatenates (\<^verbatim>\<open>null\<close> reads
  \<^verbatim>\<open>"null"\<close>), otherwise it adds numbers (\<^verbatim>\<open>null\<close> counts 0).
\<close>

fun ToString :: "jsval \<Rightarrow> string" where
  "ToString JNull = ''null''"
| "ToString (JNum x) = Number_toString x"
| "ToString (JStr s) = s"

fun js_plus :: "jsval \<Rightarrow> jsval \<Rightarrow> jsval" where
  "js_plus (JStr s) v = JStr (s @ ToString v)"
| "js_plus v (JStr s) = JStr (ToString v @ s)"
| "js_plus (JNum x) (JNum y) = JNum (x + y)"
| "js_plus (JNum x) JNull = JNum x"
| "js_plus JNull (JNum y) = JNum y"
| "js_plus JNull JNull = JNum 0"

text \<open>\<^verbatim>\<open>String.prototype.trim()\<close> on the white space of the first 256 code units.\<close>

definition is_space :: "char \<Rightarrow> bool" where
  "is_space c = (c \<in> set [CHR 0x09, CHR 0x0A, CHR 0x0B, CHR 0x0C, CHR 0x0D, CHR 0x20, CHR 0xA0])"

definition trim :: "string \<Rightarrow> string" where
  "trim s = rev (dropWhile is_space (rev (dropWhile is_space s)))"

section \<open>The date library\<close>

text \<open>
  \<^verbatim>\<open>moment\<close> is a third-party library. A moment is either invalid or a calendar date;
  the parser \<^verbatim>\<open>moment(v, "YYYY/MM/DD")\<close> and the clock \<^verbatim>\<open>moment()\<close> are parameters
  of the conversion. The parser reads \<^verbatim>\<open>YYYY\<close> as unsigned digits, so a year is a
  \<open>nat\<close>. Of the formatting, the one pattern the converter uses is modelled from the
  library's documented tokens: in \<^verbatim>\<open>"0YYDDDD"\<close> the \<^verbatim>\<open>0\<close> is no token and stands for
  itself, \<^verbatim>\<open>YY\<close> is the two-digit year and \<^verbatim>\<open>DDDD\<close> the day of the year filled with
  zeros to three places. An invalid moment formats as \<^verbatim>\<open>Invalid date\<close>.
\<close>

datatype moment = Invalid_date | Date (year: nat) (month: nat) (day: nat)

definition leap :: "nat \<Rightarrow> bool" where
  "leap y = ((y mod 4 = 0 \<and> y mod 100 \<noteq> 0) \<or> y mod 400 = 0)"

definition daysInMonth :: "nat \<Rightarrow> nat \<Rightarrow> nat" where
  "daysInMonth y m =
     (if m = 2 then (if leap y then 29 else 28)
      else if m = 4 \<or> m = 6 \<or> m = 9 \<or> m = 11 then 30 else 31)"

definition dayOfYear :: "nat \<Rightarrow> nat \<Rightarrow> nat \<Rightarrow> nat" where
  "dayOfYear y m d = sum_list (map (daysInMonth y) [1..<m]) + d"

definition valid_date :: "nat \<Rightarrow> nat \<Rightarrow> nat \<Rightarrow> bool" where
  "valid_date y m d = (1 \<le> m \<and> m \<le> 12 \<and> 1 \<le> d \<and> d \<le> daysInMonth y m)"

fun isValid :: "moment \<Rightarrow> bool" where
  "isValid Invalid_date = False"
| "isValid (Date y m d) = valid_date y m d"

definition zeroFill :: "nat \<Rightarrow> nat \<Rightarrow> string" where
  "zeroFill n len = replicate (len - length (digits n)) (CHR ''0'') @ digits n"

fun format_0YYDDDD :: "moment \<Rightarrow> string" where
  "format_0YYDDDD Invalid_date = ''Invalid date''"
| "format_0YYDDDD (Date y m d) = ''0'' @ zeroFill (y mod 100) 2 @ zeroFill (dayOfYear y m d) 3"

section \<open>Formatter\<close>

definition alphanumeric :: "jsval \<Rightarrow> nat \<Rightarrow> error + string" where
  "alphanumeric s n =
     bindE (toString s) (\<lambda>w.
     bindE (repeat '' '' (int n - int (length w))) (\<lambda>pad.
     Inr (w @ pad)))"

definition money :: "jsval \<Rightarrow> nat \<Rightarrow> error + string" where
  "money amount width =
     bindE (toFixed2 amount) (\<lambda>fx.
     let flt = replace_dot fx in
     bindE (repeat ''0'' (int width - int (length flt))) (\<lambda>pad.
     Inr (pad @ flt)))"

definition numeric :: "jsval \<Rightarrow> nat \<Rightarrow> error + string" where
  "numeric n width =
     bindE (toString n) (\<lambda>w.
     bindE (repeat ''0'' (int width - int (length w))) (\<lambda>pad.
     Inr (pad @ w)))"

section \<open>Records\<close>

text \<open>
  The classes of the source as records; \<^verbatim>\<open>ACHRecord\<close> is the base class. A counter
  field (\<open>count\<close>, \<open>file_no\<close>, \<open>debit_count\<close>) holds a non-negative integer and is
  handed to the Formatter as the number \<open>whole k\<close>. The client number of a segment is
  \<open>seg_client_no\<close>, its name in the source being taken by the base class.
\<close>

record ACHRecord =
  type :: string
  count :: nat
  client_no :: jsval
  file_no :: nat

record ACHHeader = ACHRecord +
  file_date :: moment
  processing_centre :: jsval
  currency_code :: jsval

record Segment =
  transaction_code :: jsval
  amount :: jsval
  payment_date :: moment
  transit :: jsval
  account_no :: jsval
  client_short_name :: jsval
  customer_name :: jsval
  client_long_name :: jsval
  seg_client_no :: jsval
  customer_no :: jsval
  client_sundry_no :: jsval

record ACHBasicPayment = ACHRecord +
  segments :: "Segment list"

record ACHTrailer = ACHRecord +
  debit_amount :: jsval
  debit_count :: nat

definition ACHHeader_toString :: "ACHHeader \<Rightarrow> error + string" where
  "ACHHeader_toString this = join
     [alphanumeric (JStr (type this)) 1,
      numeric (whole (count this)) 9,
      alphanumeric (client_no this) 10,
      alphanumeric (whole (file_no this)) 4,
      numeric (processing_centre this) 5,
      repeat '' '' 20,
      alphanumeric (currency_code this) 3]"

definition Segment_toString :: "Segment \<Rightarrow> error + string" where
  "Segment_toString this = join
     [alphanumeric (transaction_code this) 3,
      money (amount this) 10,
      Inr (format_0YYDDDD (payment_date this)),
      numeric (transit this) 9,
      alphanumeric (account_no this) 12,
      repeat ''0'' 22,
      repeat ''0'' 3,
      alphanumeric (client_short_name this) 15,
      alphanumeric (customer_name this) 30,
      alphanumeric (client_long_name this) 30,
      alphanumeric (seg_client_no this) 10,
      alphanumeric (customer_no this) 19,
      repeat ''0'' 9,
      repeat '' '' 12,
      alphanumeric (client_sundry_no this) 15,
      repeat '' '' 22,
      repeat '' '' 2,
      repeat '' '' 11]"

definition add_segment :: "ACHBasicPayment \<Rightarrow> Segment \<Rightarrow> ACHBasicPayment" where
  "add_segment this s = this\<lparr>segments := segments this @ [s]\<rparr>"

definition ACHBasicPayment_toString :: "ACHBasicPayment \<Rightarrow> error + string" where
  "ACHBasicPayment_toString this =
     bindE (join
       [alphanumeric (JStr (type this)) 1,
        numeric (whole (count this)) 9,
        alphanumeric (client_no this) 10,
        alphanumeric (whole (file_no this)) 4]) (\<lambda>envelope.
     bindE (join (map Segment_toString (segments this))) (\<lambda>segs.
     Inr (envelope @ segs)))"

definition ACHTrailer_toString :: "ACHTrailer \<Rightarrow> error + string" where
  "ACHTrailer_toString this = join
     [alphanumeric (JStr (type this)) 1,
      numeric (whole (count this)) 9,
      alphanumeric (client_no this) 10,
      alphanumeric (whole (file_no this)) 4,
      money (debit_amount this) 14,
      numeric (whole (debit_count this)) 8,
      repeat ''0'' 4,
      repeat ''0'' 8,
      repeat ''0'' 1396]"

section \<open>The worksheet\<close>

text \<open>
  The sheet is the object of the spreadsheet library: a dictionary from cell addresses
  (\<^verbatim>\<open>"B2"\<close>) to cells, whose value \<^verbatim>\<open>v\<close> is a number or a text; cells of other
  kinds (booleans, dates) are not modelled. The array \<^verbatim>\<open>cols\<close> holds the 26 one-letter
  strings from \<^verbatim>\<open>"A"\<close> to \<^verbatim>\<open>"Z"\<close>.
\<close>

datatype cell_v = N number | S string

type_synonym worksheet = "string \<rightharpoonup> cell_v"

definition cols :: "string list" where
  "cols = map (\<lambda>c. [c]) ''ABCDEFGHIJKLMNOPQRSTUVWXYZ''"

text \<open>\<^verbatim>\<open>cols[i] + addr\<close>: past the end of the array the element is \<^verbatim>\<open>undefined\<close>.\<close>

definition cols_at :: "nat \<Rightarrow> string" where
  "cols_at i = (if i < length cols then cols ! i else ''undefined'')"

text \<open>
  The \<^verbatim>\<open>while (true)\<close> loop of \<^verbatim>\<open>xl_row_col\<close>, with the remainder by 27 and the
  division by 26 of the source; it ends because the column number falls.
\<close>

function col_addr :: "nat \<Rightarrow> string \<Rightarrow> string" where
  "col_addr col addr =
     (let addr' = cols_at (col mod 27) @ addr; col' = col div 26
      in if col' = 0 then addr' else col_addr col' addr')"
  by pat_completeness auto
termination
  by (relation "measure fst") auto

declare col_addr.simps [simp del]

text \<open>
  Every call of the source passes a column from 1 to 7 and a whole row number, so
  \<^verbatim>\<open>col -= 1\<close> stays at or above 0 and \<^verbatim>\<open>row.toFixed(0)\<close> is the row's digits.
\<close>

definition xl_row_col :: "nat \<Rightarrow> nat \<Rightarrow> string" where
  "xl_row_col row col = col_addr (col - 1) '''' @ digits row"

definition cell :: "worksheet \<Rightarrow> nat \<Rightarrow> nat \<Rightarrow> jsval" where
  "cell worksheet row col =
     (case worksheet (xl_row_col row col) of
        None \<Rightarrow> JNull
      | Some (N x) \<Rightarrow> JNum x
      | Some (S s) \<Rightarrow> JStr (trim s))"

section \<open>writeACHFile\<close>

text \<open>
  The body of \<^verbatim>\<open>writeACHFile\<close> in the order of the source: \<open>read_metadata\<close> is lines
  285 to 291, \<open>new_header\<close> lines 293 to 300, \<open>payment_loop\<close> the loop of lines 311 to
  358 (with \<open>new_payment\<close> for the payment and its segment, lines 312 to 350, and
  \<open>accept_row\<close> for the updates of lines 352 to 357), \<open>new_trailer\<close> lines 360 to 366
  and \<open>write_file\<close> lines 368 to 381. Reading the workbook and failures of the file
  system are outside the model.
\<close>

text \<open>The file-level values read once before the loop, and the mode argument.\<close>

record metadata =
  m_mode :: string
  m_client_name :: jsval
  m_client_no :: jsval
  m_payment_moment :: moment
  m_transaction_code :: jsval

text \<open>The variables the loop updates; the row number \<open>r\<close> is the loop's argument.\<close>

record loop_state =
  RECORD_COUNT :: nat
  total_debit_amount :: jsval
  total_debit_records :: nat
  payment_records :: "ACHBasicPayment list"

text \<open>
  The Detail record of row \<open>r\<close>: the payment \<^verbatim>\<open>b\<close> created at the head of the loop body
  with the segment added to it. Building the transit number calls the Formatter and can throw.
\<close>

definition new_payment :: "metadata \<Rightarrow> worksheet \<Rightarrow> nat \<Rightarrow> loop_state \<Rightarrow> error + ACHBasicPayment" where
  "new_payment meta worksheet r st =
     (let b = \<lparr>type = m_mode meta, count = RECORD_COUNT st, client_no = m_client_no meta,
               file_no = RECORD_COUNT st, segments = []\<rparr>;
          customer_no' = cell worksheet r 1;
          customer_name' = cell worksheet r 2;
          bank = cell worksheet r 3;
          branch = cell worksheet r 4;
          account = cell worksheet r 5;
          amount' = cell worksheet r 6
      in bindE (numeric bank 4) (\<lambda>bank4.
         bindE (numeric branch 5) (\<lambda>branch5.
         Inr (add_segment b
           \<lparr>transaction_code = m_transaction_code meta,
            amount = amount',
            payment_date = m_payment_moment meta,
            transit = js_plus (JStr bank4) (JStr branch5),
            account_no = account,
            client_short_name = JStr '''',
            customer_name = customer_name',
            client_long_name = m_client_name meta,
            seg_client_no = m_client_no meta,
            customer_no = customer_no',
            client_sundry_no = JStr ''''\<rparr>))))"

text \<open>The rest of the loop body for a row that is neither the end of data nor suspended.\<close>

definition accept_row :: "metadata \<Rightarrow> worksheet \<Rightarrow> nat \<Rightarrow> loop_state \<Rightarrow> error + loop_state" where
  "accept_row meta worksheet r st =
     bindE (new_payment meta worksheet r st) (\<lambda>b.
     Inr (st\<lparr>RECORD_COUNT := RECORD_COUNT st + 1,
             total_debit_amount := js_plus (total_debit_amount st) (cell worksheet r 6),
             total_debit_records := total_debit_records st + 1,
             payment_records := payment_records st @ [b]\<rparr>))"

text \<open>
  The \<^verbatim>\<open>while (true)\<close> loop over the rows. A sheet with a customer number in every row
  from \<open>r\<close> on keeps it running: the result is then \<open>None\<close>.
\<close>

partial_function (option) payment_loop ::
  "metadata \<Rightarrow> worksheet \<Rightarrow> nat \<Rightarrow> loop_state \<Rightarrow> (error + loop_state) option" where
  "payment_loop meta worksheet r st =
     (if falsy (cell worksheet r 1) then Some (Inr st)
      else if eq_y (cell worksheet r 7) then payment_loop meta worksheet (r + 1) st
      else (case accept_row meta worksheet r st of
              Inl e \<Rightarrow> Some (Inl e)
            | Inr st' \<Rightarrow> payment_loop meta worksheet (r + 1) st'))"

definition read_metadata :: "(jsval \<Rightarrow> moment) \<Rightarrow> worksheet \<Rightarrow> string \<Rightarrow> metadata" where
  "read_metadata parse worksheet mode =
     \<lparr>m_mode = mode,
      m_client_name = cell worksheet 1 2,
      m_client_no = cell worksheet 2 2,
      m_payment_moment = parse (cell worksheet 5 2),
      m_transaction_code = cell worksheet 6 2\<rparr>"

definition new_header :: "moment \<Rightarrow> worksheet \<Rightarrow> ACHHeader" where
  "new_header now worksheet =
     \<lparr>type = ''A'', count = 1, client_no = cell worksheet 2 2, file_no = 1,
      file_date = now, processing_centre = cell worksheet 3 2,
      currency_code = cell worksheet 4 2\<rparr>"

definition initial_state :: loop_state where
  "initial_state =
     \<lparr>RECORD_COUNT = 2, total_debit_amount = JNum 0, total_debit_records = 0,
      payment_records = []\<rparr>"

definition new_trailer :: "metadata \<Rightarrow> loop_state \<Rightarrow> ACHTrailer" where
  "new_trailer meta st =
     \<lparr>type = ''Z'', count = RECORD_COUNT st, client_no = m_client_no meta,
      file_no = RECORD_COUNT st, debit_amount = total_debit_amount st,
      debit_count = total_debit_records st\<rparr>"

text \<open>
  Lines 284 to 366: the header, the payment records and the trailer, before anything is
  written. An exception in the loop leaves the function with no file opened.
\<close>

definition assemble ::
  "(jsval \<Rightarrow> moment) \<Rightarrow> moment \<Rightarrow> worksheet \<Rightarrow> string \<Rightarrow>
   (error + ACHHeader \<times> ACHBasicPayment list \<times> ACHTrailer) option" where
  "assemble parse now worksheet mode =
     (let meta = read_metadata parse worksheet mode;
          header = new_header now worksheet
      in case payment_loop meta worksheet 8 initial_state of
           None \<Rightarrow> None
         | Some (Inl e) \<Rightarrow> Some (Inl e)
         | Some (Inr st) \<Rightarrow> Some (Inr (header, payment_records st, new_trailer meta st)))"

text \<open>
  Lines 368 to 381. The outcome of a run is the content of the output file (\<open>None\<close>:
  never opened) and the exception that left the function, if one did. Each record is
  rendered before it is written, so an exception leaves what was written before it.
\<close>

record outcome =
  out_file :: "string option"
  thrown :: "error option"

definition delimiter :: string where
  "delimiter = [CHR 0x0A, CHR 0x0A]"

fun write_records :: "ACHBasicPayment list \<Rightarrow> string \<Rightarrow> string \<times> error option" where
  "write_records [] fd = (fd, None)"
| "write_records (rec # recs) fd =
     (case ACHBasicPayment_toString rec of
        Inl e \<Rightarrow> (fd, Some e)
      | Inr s \<Rightarrow> write_records recs (fd @ s @ delimiter))"

definition write_file :: "ACHHeader \<Rightarrow> ACHBasicPayment list \<Rightarrow> ACHTrailer \<Rightarrow> outcome" where
  "write_file header recs t =
     (case ACHHeader_toString header of
        Inl e \<Rightarrow> \<lparr>out_file = Some '''', thrown = Some e\<rparr>
      | Inr hs \<Rightarrow>
          (case write_records recs (hs @ delimiter) of
             (fd, Some e) \<Rightarrow> \<lparr>out_file = Some fd, thrown = Some e\<rparr>
           | (fd, None) \<Rightarrow>
               (case ACHTrailer_toString t of
                  Inl e \<Rightarrow> \<lparr>out_file = Some fd, thrown = Some e\<rparr>
                | Inr ts \<Rightarrow> \<lparr>out_file = Some (fd @ ts), thrown = None\<rparr>)))"

definition writeACHFile ::
  "(jsval \<Rightarrow> moment) \<Rightarrow> moment \<Rightarrow> worksheet \<Rightarrow> string \<Rightarrow> outcome option" where
  "writeACHFile parse now worksheet mode =
     (case assemble parse now worksheet mode of
        None \<Rightarrow> None
      | Some (Inl e) \<Rightarrow> Some \<lparr>out_file = None, thrown = Some e\<rparr>
      | Some (Inr (header, recs, t)) \<Rightarrow> Some (write_file header recs t))"

section \<open>Rows and sheets\<close>

text \<open>
  A row is accepted when neither guard at the head of the loop body fires: its customer
  number is truthy and its suspend flag is not \<^verbatim>\<open>"y"\<close>.
\<close>

definition accepted :: "worksheet \<Rightarrow> nat \<Rightarrow> bool" where
  "accepted worksheet r = (\<not> falsy (cell worksheet r 1) \<and> \<not> eq_y (cell worksheet r 7))"

text \<open>
  The end of data is the first row, from row 8 on, at which the guard
  \<^verbatim>\<open>if (!customer_no) break\<close> fires.
\<close>

definition end_of_data :: "worksheet \<Rightarrow> nat \<Rightarrow> bool" where
  "end_of_data worksheet e =
     (8 \<le> e \<and> falsy (cell worksheet e 1) \<and> (\<forall>r \<in> set [8..<e]. \<not> falsy (cell worksheet r 1)))"

text \<open>
  Two sheets are the same in a row when the seven cells the loop reads there (columns A to
  G) are the same, and the same up to row \<open>e\<close> when they are so in every row from 1 to
  \<open>e\<close>, which covers the cells of the file-level values in rows 1 to 6.
\<close>

definition same_row :: "worksheet \<Rightarrow> worksheet \<Rightarrow> nat \<Rightarrow> bool" where
  "same_row ws ws' r = (\<forall>c \<in> set [1..<8]. cell ws' r c = cell ws r c)"

definition same_upto :: "worksheet \<Rightarrow> worksheet \<Rightarrow> nat \<Rightarrow> bool" where
  "same_upto ws ws' e = (\<forall>r \<in> set [1..<Suc e]. same_row ws ws' r)"

section \<open>Example sheets\<close>

text \<open>
  A small payment sheet. Row 8 is an ordinary payment of 100.00, row 9 is suspended, the
  customer number of row 10 is blank text, and row 11 lies after the end of data.
\<close>

definition ex_sheet :: worksheet where
  "ex_sheet = map_of
     [(''B1'', S ''ACME LTD''), (''B2'', S ''0012345678''), (''B3'', N 302000),
      (''B4'', S ''CAD''), (''B5'', S ''2021/03/15''), (''B6'', N 43000),
      (''A8'', N 100100), (''B8'', S ''JOHN DOE''), (''C8'', N 300), (''D8'', N 1234500),
      (''E8'', S ''7654321''), (''F8'', N 10000),
      (''A9'', N 100200), (''B9'', S ''JANE ROE''), (''C9'', N 300), (''D9'', N 1234500),
      (''E9'', S ''1112223''), (''F9'', N 5025), (''G9'', S '' y''),
      (''A10'', S ''  ''), (''F10'', N 0),
      (''A11'', N 100300), (''B11'', S ''LATE ROW''), (''C11'', N 300), (''D11'', N 1234500),
      (''E11'', S ''9999''), (''F11'', N 700)]"

text \<open>The same sheet with the number 0 as the customer number of row 10.\<close>

definition ex_sheet_zero :: worksheet where
  "ex_sheet_zero = ex_sheet(''A10'' \<mapsto> N 0)"

text \<open>A sheet whose row 8 is suspended and has no customer number; row 9 is a payment.\<close>

definition ex_sheet_suspended :: worksheet where
  "ex_sheet_suspended = map_of
     [(''B1'', S ''ACME LTD''), (''B2'', S ''0012345678''), (''B3'', N 302000),
      (''B4'', S ''CAD''), (''B5'', S ''2021/03/15''), (''B6'', N 43000),
      (''G8'', S ''y''),
      (''A9'', N 100200), (''B9'', S ''JANE ROE''), (''C9'', N 300), (''D9'', N 1234500),
      (''E9'', S ''1112223''), (''F9'', N 5025)]"

text \<open>A parser that knows the payment date of the example sheets.\<close>

definition ex_parse :: "jsval \<Rightarrow> moment" where
  "ex_parse v = (if v = JStr ''2021/03/15'' then Date 2021 3 15 else Invalid_date)"

definition ex_meta :: "string \<Rightarrow> metadata" where
  "ex_meta mode = read_metadata ex_parse ex_sheet mode"

text \<open>
  What the run on \<open>ex_sheet\<close> builds from row 8: the segment, the payment record around
  it, and the texts they render to when the mode is one letter.
\<close>

definition ex_segment :: Segment where
  "ex_segment = \<lparr>transaction_code = JNum 43000, amount = JNum 10000,
     payment_date = Date 2021 3 15, transit = JStr ''000312345'',
     account_no = JStr ''7654321'', client_short_name = JStr '''',
     customer_name = JStr ''JOHN DOE'', client_long_name = JStr ''ACME LTD'',
     seg_client_no = JStr ''0012345678'', customer_no = JNum 100100,
     client_sundry_no = JStr ''''\<rparr>"

definition ex_payment :: "string \<Rightarrow> ACHBasicPayment" where
  "ex_payment mode = \<lparr>type = mode, count = 2, client_no = JStr ''0012345678'', file_no = 2,
     segments = [ex_segment]\<rparr>"

definition ex_segment_text :: string where
  "ex_segment_text =
     ''430'' @ ''0000010000'' @ ''021074'' @ ''000312345'' @ ''7654321     '' @
     replicate 22 (CHR ''0'') @ replicate 3 (CHR ''0'') @ replicate 15 (CHR '' '') @
     ''JOHN DOE'' @ replicate 22 (CHR '' '') @ ''ACME LTD'' @ replicate 22 (CHR '' '') @
     ''0012345678'' @ ''1001'' @ replicate 15 (CHR '' '') @ replicate 9 (CHR ''0'') @
     replicate 12 (CHR '' '') @ replicate 15 (CHR '' '') @ replicate 22 (CHR '' '') @
     replicate 2 (CHR '' '') @ replicate 11 (CHR '' '')"

definition ex_payment_text :: string where
  "ex_payment_text = ''D'' @ ''000000002'' @ ''0012345678'' @ ''2   '' @ ex_segment_text"

definition ex_state :: "string \<Rightarrow> loop_state" where
  "ex_state mode =
     \<lparr>RECORD_COUNT = 3, total_debit_amount = JNum 10000, total_debit_records = 1,
      payment_records = [ex_payment mode]\<rparr>"

definition ex_now :: moment where
  "ex_now = Date 2026 11 2"

definition ex_header_text :: string where
  "ex_header_text =
     ''A'' @ ''000000001'' @ ''0012345678'' @ ''1   '' @ ''03020'' @ replicate 20 (CHR '' '') @ ''CAD''"

definition ex_trailer :: ACHTrailer where
  "ex_trailer =
     \<lparr>type = ''Z'', count = 3, client_no = JStr ''0012345678'', file_no = 3,
      debit_amount = JNum 10000, debit_count = 1\<rparr>"

definition ex_trailer_text :: string where
  "ex_trailer_text =
     ''Z'' @ ''000000003'' @ ''0012345678'' @ ''3   '' @ ''00000000010000'' @ ''00000001'' @
     replicate 4 (CHR ''0'') @ replicate 8 (CHR ''0'') @ replicate 1396 (CHR ''0'')"

text \<open>The example sheet with other cells after the end of data.\<close>

definition ex_sheet_late :: worksheet where
  "ex_sheet_late = ex_sheet(''A11'' \<mapsto> N 555500, ''F11'' \<mapsto> N 99, ''A12'' \<mapsto> S ''ZED'')"

text \<open>
  Inputs that overflow a field: a segment whose customer name has 32 characters, and the
  example sheet with the six-digit bank number 123456 in row 8.
\<close>

definition ex_wide_segment :: Segment where
  "ex_wide_segment = ex_segment\<lparr>customer_name := JStr ''A CUSTOMER NAME OF 32 CHARACTERS''\<rparr>"

definition ex_sheet_bank :: worksheet where
  "ex_sheet_bank = ex_sheet(''C8'' \<mapsto> N 12345600)"

text \<open>
  An input with no valid payment date: the example sheet without its payment-date cell,
  the segment and the payment record the run builds from its row 8, and their texts.
\<close>

definition ex_sheet_nodate :: worksheet where
  "ex_sheet_nodate = ex_sheet(''B5'' := None)"

definition ex_invalid_segment :: Segment where
  "ex_invalid_segment = ex_segment\<lparr>payment_date := Invalid_date\<rparr>"

definition ex_invalid_payment :: ACHBasicPayment where
  "ex_invalid_payment = (ex_payment ''D'')\<lparr>segments := [ex_invalid_segment]\<rparr>"

definition ex_invalid_segment_text :: string where
  "ex_invalid_segment_text =
     ''430'' @ ''0000010000'' @ ''Invalid date'' @ ''000312345'' @ ''7654321     '' @
     replicate 22 (CHR ''0'') @ replicate 3 (CHR ''0'') @ replicate 15 (CHR '' '') @
     ''JOHN DOE'' @ replicate 22 (CHR '' '') @ ''ACME LTD'' @ replicate 22 (CHR '' '') @
     ''0012345678'' @ ''1001'' @ replicate 15 (CHR '' '') @ replicate 9 (CHR ''0'') @
     replicate 12 (CHR '' '') @ replicate 15 (CHR '' '') @ replicate 22 (CHR '' '') @
     replicate 2 (CHR '' '') @ replicate 11 (CHR '' '')"

definition ex_invalid_payment_text :: string where
  "ex_invalid_payment_text =
     ''D'' @ ''000000002'' @ ''0012345678'' @ ''2   '' @ ex_invalid_segment_text"

section \<open>Properties of the Formatter\<close>

lemma bindE_Inr: "bindE m f = Inr y \<longleftrightarrow> (\<exists>x. m = Inr x \<and> f x = Inr y)"
  by (cases m) (simp_all add: bindE_def)

lemma bindE_Inl: "bindE m f = Inl e \<longleftrightarrow> (m = Inl e \<or> (\<exists>x. m = Inr x \<and> f x = Inl e))"
  by (cases m) (simp_all add: bindE_def)

lemma concat_replicate_single: "concat (replicate k [c]) = replicate k c"
  by (induction k) simp_all

lemma repeat_Inr: "repeat [c] k = Inr p \<longleftrightarrow> (0 \<le> k \<and> p = replicate (nat k) c)"
  by (auto simp: repeat_def concat_replicate_single)

lemma repeat_Inl: "repeat s k = Inl e \<longleftrightarrow> (k < 0 \<and> e = RangeError)"
  by (auto simp: repeat_def)

lemma alphanumeric_Inr:
  "alphanumeric v n = Inr s \<longleftrightarrow>
     (\<exists>w. toString v = Inr w \<and> length w \<le> n \<and> s = w @ replicate (n - length w) (CHR '' ''))"
  by (auto simp: alphanumeric_def bindE_Inr repeat_Inr nat_diff_distrib')

lemma numeric_Inr:
  "numeric v n = Inr s \<longleftrightarrow>
     (\<exists>w. toString v = Inr w \<and> length w \<le> n \<and> s = replicate (n - length w) (CHR ''0'') @ w)"
  by (auto simp: numeric_def bindE_Inr repeat_Inr nat_diff_distrib')

lemma money_Inr:
  "money v n = Inr s \<longleftrightarrow>
     (\<exists>fx. toFixed2 v = Inr fx \<and> length (replace_dot fx) \<le> n \<and>
        s = replicate (n - length (replace_dot fx)) (CHR ''0'') @ replace_dot fx)"
  by (auto simp: money_def bindE_Inr repeat_Inr nat_diff_distrib' Let_def)

lemma alphanumeric_length: "alphanumeric v n = Inr s \<Longrightarrow> length s = n"
  by (auto simp: alphanumeric_Inr)

lemma numeric_length: "numeric v n = Inr s \<Longrightarrow> length s = n"
  by (auto simp: numeric_Inr)

lemma money_length: "money v n = Inr s \<Longrightarrow> length s = n"
  by (auto simp: money_Inr)

lemma alphanumeric_overflow:
  "toString v = Inr w \<Longrightarrow> n < length w \<Longrightarrow> alphanumeric v n = Inl RangeError"
  by (simp add: alphanumeric_def bindE_def repeat_def)

lemma numeric_overflow:
  "toString v = Inr w \<Longrightarrow> n < length w \<Longrightarrow> numeric v n = Inl RangeError"
  by (simp add: numeric_def bindE_def repeat_def)

lemma money_overflow:
  "toFixed2 v = Inr fx \<Longrightarrow> n < length (replace_dot fx) \<Longrightarrow> money v n = Inl RangeError"
  by (simp add: money_def bindE_def repeat_def)

lemma join_Inr_Cons:
  "join (x # xs) = Inr s \<longleftrightarrow> (\<exists>a t. x = Inr a \<and> join xs = Inr t \<and> s = a @ t)"
  by (cases x) (auto simp: bindE_Inr)

lemma join_Inr_Nil: "join [] = Inr s \<longleftrightarrow> s = []"
  by auto

lemma join_Inl_mem: "Inl e \<in> set xs \<Longrightarrow> \<exists>e'. join xs = Inl e'"
proof (induction xs)
  case Nil
  then show ?case by simp
next
  case (Cons x xs)
  show ?case
  proof (cases x)
    case (Inl a)
    then show ?thesis by simp
  next
    case (Inr a)
    with Cons obtain e' where "join xs = Inl e'" by auto
    with Inr show ?thesis by (simp add: bindE_def)
  qed
qed

lemma join_isl: "Inl err \<in> set xs \<Longrightarrow> isl (join xs)"
  using join_Inl_mem [of err xs] by auto

lemma join_append:
  "join (xs @ ys) = Inr s \<longleftrightarrow> (\<exists>a b. join xs = Inr a \<and> join ys = Inr b \<and> s = a @ b)"
proof (induction xs arbitrary: s)
  case Nil
  then show ?case by simp
next
  case (Cons x xs)
  show ?case
  proof (cases x)
    case (Inl e)
    then show ?thesis by simp
  next
    case (Inr t)
    then show ?thesis
      using Cons by (auto simp: bindE_Inr)
  qed
qed

lemma join_single: "join [Inr t] = Inr s \<longleftrightarrow> s = t"
  by (auto simp: bindE_Inr)

lemma join_map_length:
  "join (map f xs) = Inr s \<Longrightarrow> \<forall>x \<in> set xs. \<forall>t. f x = Inr t \<longrightarrow> length t = k \<Longrightarrow>
     length s = k * length xs"
proof (induction xs arbitrary: s)
  case Nil
  then show ?case by simp
next
  case (Cons x xs)
  from Cons.prems(1) obtain a t where
    a: "f x = Inr a" and t: "join (map f xs) = Inr t" and s: "s = a @ t"
    by (auto simp: join_Inr_Cons)
  have "length a = k"
    using Cons.prems(2) a by simp
  moreover have "length t = k * length xs"
    using Cons.IH [OF t] Cons.prems(2) by simp
  ultimately show ?case
    using s by simp
qed

section \<open>Properties of the digits and of the date format\<close>

lemma length_digits_pos: "0 < length (digits n)"
  by (subst digits.simps) simp

lemma length_digits_lt10: "n < 10 \<Longrightarrow> length (digits n) = 1"
  by (subst digits.simps) simp

lemma length_digits_lt100: "n < 100 \<Longrightarrow> length (digits n) \<le> 2"
  by (subst digits.simps) (simp add: length_digits_lt10)

lemma length_digits_lt1000: "n < 1000 \<Longrightarrow> length (digits n) \<le> 3"
  by (subst digits.simps) (use length_digits_lt100 [of "n div 10"] in simp)

lemma length_digits_ge10: "10 \<le> n \<Longrightarrow> 2 \<le> length (digits n)"
proof -
  assume "10 \<le> n"
  then have "length (digits n) = Suc (length (digits (n div 10)))"
    by (subst digits.simps) simp
  then show ?thesis
    using length_digits_pos [of "n div 10"] by linarith
qed

lemma length_digits_one: "length (digits n) = 1 \<longleftrightarrow> n < 10"
  using length_digits_ge10 [of n] length_digits_lt10 [of n] by fastforce

lemma digit_char_digit: "d < 10 \<Longrightarrow> digit_char d \<in> set ''0123456789''"
proof -
  assume "d < 10"
  then have "d = 0 \<or> d = 1 \<or> d = 2 \<or> d = 3 \<or> d = 4 \<or> d = 5 \<or> d = 6 \<or> d = 7 \<or> d = 8 \<or> d = 9"
    by arith
  then show ?thesis
    by (elim disjE) (simp_all add: digit_char_def)
qed

lemma digits_digit: "set (digits n) \<subseteq> set ''0123456789''"
proof (induction n rule: digits.induct)
  case (1 n)
  show ?case
  proof (cases "n < 10")
    case True
    then show ?thesis
      using digit_char_digit [of n] by (subst digits.simps) simp
  next
    case False
    then show ?thesis
      using 1 digit_char_digit [of "n mod 10"] by (subst digits.simps) simp
  qed
qed

lemma digit_char_inj: "a < 10 \<Longrightarrow> b < 10 \<Longrightarrow> digit_char a = digit_char b \<Longrightarrow> a = b"
proof -
  assume "a < 10" and "b < 10"
  then have a: "a = 0 \<or> a = 1 \<or> a = 2 \<or> a = 3 \<or> a = 4 \<or> a = 5 \<or> a = 6 \<or> a = 7 \<or> a = 8 \<or> a = 9"
    and b: "b = 0 \<or> b = 1 \<or> b = 2 \<or> b = 3 \<or> b = 4 \<or> b = 5 \<or> b = 6 \<or> b = 7 \<or> b = 8 \<or> b = 9"
    by arith+
  assume "digit_char a = digit_char b"
  with a b show "a = b"
    by (elim disjE) (simp_all add: digit_char_def)
qed

lemma digits_inj: "digits m = digits n \<Longrightarrow> m = n"
proof (induction m arbitrary: n rule: digits.induct)
  case (1 m)
  have same: "m < 10 \<longleftrightarrow> n < 10"
    using "1.prems" length_digits_one [of m] length_digits_one [of n] by simp
  show ?case
  proof (cases "m < 10")
    case True
    then have "digits m = [digit_char m]" and "digits n = [digit_char n]"
      using same by (subst digits.simps, simp)+
    with "1.prems" True same show ?thesis
      by (simp add: digit_char_inj)
  next
    case False
    then have "digits m = digits (m div 10) @ [digit_char (m mod 10)]"
      and "digits n = digits (n div 10) @ [digit_char (n mod 10)]"
      using same by (subst digits.simps, simp)+
    with "1.prems" have "digits (m div 10) = digits (n div 10)"
      and "digit_char (m mod 10) = digit_char (n mod 10)"
      by simp_all
    then have "m div 10 = n div 10" and "m mod 10 = n mod 10"
      using "1.IH" [OF False] by (simp_all add: digit_char_inj)
    then show ?thesis
      by (metis div_mult_mod_eq)
  qed
qed

lemma length_zeroFill: "length (digits n) \<le> len \<Longrightarrow> length (zeroFill n len) = len"
  by (simp add: zeroFill_def)

lemma zeroFill_digit: "set (zeroFill n len) \<subseteq> set ''0123456789''"
  using digits_digit [of n] by (auto simp: zeroFill_def)

lemma months_sum_le: "m \<le> 12 \<Longrightarrow> sum_list (map (daysInMonth y) [1..<m]) \<le> 335"
proof -
  assume "m \<le> 12"
  then have "m = 0 \<or> m = 1 \<or> m = 2 \<or> m = 3 \<or> m = 4 \<or> m = 5 \<or> m = 6
    \<or> m = 7 \<or> m = 8 \<or> m = 9 \<or> m = 10 \<or> m = 11 \<or> m = 12"
    by arith
  then show ?thesis
    by (elim disjE) (simp_all add: daysInMonth_def upt_rec)
qed

lemma dayOfYear_le: "valid_date y m d \<Longrightarrow> dayOfYear y m d \<le> 366"
proof -
  assume v: "valid_date y m d"
  then have "m \<le> 12" and "d \<le> daysInMonth y m"
    by (simp_all add: valid_date_def)
  moreover have "daysInMonth y m \<le> 31"
    by (simp add: daysInMonth_def)
  ultimately show ?thesis
    using months_sum_le [of m y] by (simp add: dayOfYear_def)
qed

lemma format_valid_length: "valid_date y m d \<Longrightarrow> length (format_0YYDDDD (Date y m d)) = 6"
  using length_digits_lt100 [of "y mod 100"] length_digits_lt1000 [of "dayOfYear y m d"]
    dayOfYear_le [of y m d]
  by (simp add: length_zeroFill)

lemma format_valid_digits:
  "set (format_0YYDDDD (Date y m d)) \<subseteq> set ''0123456789''"
  using zeroFill_digit [of "y mod 100" 2] zeroFill_digit [of "dayOfYear y m d" 3] by auto

lemma Number_toString_whole: "toString (whole k) = Inr (digits k)"
proof -
  have "nat (100 * int k) = 100 * k"
    by (simp add: nat_mult_distrib)
  then show ?thesis
    by (simp add: whole_def Number_toString_def sign_text_def)
qed

lemma numeric_whole_Inr: "numeric (whole k) n = Inr s \<Longrightarrow> s = zeroFill k n"
  by (auto simp: numeric_Inr Number_toString_whole zeroFill_def)

section \<open>Properties of the records\<close>

lemma Segment_toString_Inr:
  assumes "Segment_toString seg = Inr s"
  shows "\<exists>a b. length a = 13 \<and> length b = 221 \<and> s = a @ format_0YYDDDD (payment_date seg) @ b"
proof -
  have "join ([alphanumeric (transaction_code seg) 3, money (amount seg) 10]
          @ [Inr (format_0YYDDDD (payment_date seg))]
          @ [numeric (transit seg) 9, alphanumeric (account_no seg) 12,
             repeat ''0'' 22, repeat ''0'' 3,
             alphanumeric (client_short_name seg) 15,
             alphanumeric (customer_name seg) 30,
             alphanumeric (client_long_name seg) 30,
             alphanumeric (seg_client_no seg) 10,
             alphanumeric (customer_no seg) 19, repeat ''0'' 9,
             repeat '' '' 12, alphanumeric (client_sundry_no seg) 15,
             repeat '' '' 22, repeat '' '' 2, repeat '' '' 11]) = Inr s"
    using assms unfolding Segment_toString_def by simp
  then obtain a b where
    a: "join [alphanumeric (transaction_code seg) 3, money (amount seg) 10] = Inr a" and
    b: "join [numeric (transit seg) 9, alphanumeric (account_no seg) 12,
             repeat ''0'' 22, repeat ''0'' 3,
             alphanumeric (client_short_name seg) 15,
             alphanumeric (customer_name seg) 30,
             alphanumeric (client_long_name seg) 30,
             alphanumeric (seg_client_no seg) 10,
             alphanumeric (customer_no seg) 19, repeat ''0'' 9,
             repeat '' '' 12, alphanumeric (client_sundry_no seg) 15,
             repeat '' '' 22, repeat '' '' 2, repeat '' '' 11] = Inr b" and
    s: "s = a @ format_0YYDDDD (payment_date seg) @ b"
    unfolding join_append join_single by blast
  from a have "length a = 13"
    by (auto simp: join_Inr_Cons dest!: alphanumeric_length money_length)
  moreover from b have "length b = 221"
    by (auto simp: join_Inr_Cons repeat_Inr dest!: alphanumeric_length numeric_length)
  ultimately show ?thesis
    using s by blast
qed

lemma envelope_length:
  "join [alphanumeric t 1, numeric c 9, alphanumeric cn 10, alphanumeric f 4] = Inr s \<Longrightarrow>
     length s = 24"
  by (auto simp: join_Inr_Cons dest!: alphanumeric_length numeric_length)

lemma Segment_toString_length:
  "Segment_toString seg = Inr s \<Longrightarrow> isValid (payment_date seg) \<Longrightarrow> length s = 240"
  using Segment_toString_Inr [of seg s] format_valid_length
  by (cases "payment_date seg") auto

lemma ACHBasicPayment_toString_length:
  assumes "ACHBasicPayment_toString b = Inr s"
    and "\<And>seg. seg \<in> set (segments b) \<Longrightarrow> isValid (payment_date seg)"
  shows "length s = 24 + 240 * length (segments b)"
proof -
  from assms(1) obtain envelope segs where
    e: "join [alphanumeric (JStr (type b)) 1, numeric (whole (count b)) 9,
              alphanumeric (client_no b) 10, alphanumeric (whole (file_no b)) 4] = Inr envelope" and
    g: "join (map Segment_toString (segments b)) = Inr segs" and
    s: "s = envelope @ segs"
    unfolding ACHBasicPayment_toString_def bindE_Inr by blast
  have "length segs = 240 * length (segments b)"
    using g assms(2) by (intro join_map_length) (auto simp: Segment_toString_length)
  then show ?thesis
    using envelope_length [OF e] s by simp
qed

lemma ACHHeader_toString_length: "ACHHeader_toString h = Inr s \<Longrightarrow> length s = 52"
  by (auto simp: ACHHeader_toString_def join_Inr_Cons repeat_Inr
        dest!: alphanumeric_length numeric_length)

lemma ACHTrailer_toString_length: "ACHTrailer_toString t = Inr s \<Longrightarrow> length s = 1454"
  by (auto simp: ACHTrailer_toString_def join_Inr_Cons repeat_Inr
        dest!: alphanumeric_length numeric_length money_length)

lemma payment_date_in_segment:
  assumes "Segment_toString seg = Inr s"
  shows "take (length (format_0YYDDDD (payment_date seg))) (drop 13 s) = format_0YYDDDD (payment_date seg)"
proof -
  from Segment_toString_Inr [OF assms] obtain a b where
    "length a = 13" "s = a @ format_0YYDDDD (payment_date seg) @ b"
    by blast
  then show ?thesis by simp
qed

lemma sequence_field:
  assumes "join (alphanumeric t 1 # numeric (whole c) 9 # rest) = Inr s"
  shows "take 9 (drop 1 s) = zeroFill c 9"
proof -
  from assms obtain a n u where a: "alphanumeric t 1 = Inr a" and n: "numeric (whole c) 9 = Inr n"
    and s: "s = a @ n @ u"
    by (auto simp: join_Inr_Cons)
  have "length a = 1" "length n = 9" "n = zeroFill c 9"
    using a n by (simp_all add: alphanumeric_length numeric_length numeric_whole_Inr)
  then show ?thesis
    using s by simp
qed

lemma ACHHeader_sequence_field:
  "ACHHeader_toString h = Inr s \<Longrightarrow> take 9 (drop 1 s) = zeroFill (count h) 9"
  unfolding ACHHeader_toString_def by (rule sequence_field)

lemma ACHTrailer_sequence_field:
  "ACHTrailer_toString t = Inr s \<Longrightarrow> take 9 (drop 1 s) = zeroFill (count t) 9"
  unfolding ACHTrailer_toString_def by (rule sequence_field)

lemma ACHBasicPayment_sequence_field:
  assumes "ACHBasicPayment_toString b = Inr s"
  shows "take 9 (drop 1 s) = zeroFill (count b) 9"
proof -
  from assms obtain envelope segs where
    e: "join [alphanumeric (JStr (type b)) 1, numeric (whole (count b)) 9,
              alphanumeric (client_no b) 10, alphanumeric (whole (file_no b)) 4] = Inr envelope" and
    s: "s = envelope @ segs"
    unfolding ACHBasicPayment_toString_def bindE_Inr by blast
  have "length envelope = 24"
    using e by (rule envelope_length)
  moreover have "take 9 (drop 1 envelope) = zeroFill (count b) 9"
    using e by (rule sequence_field)
  ultimately show ?thesis
    using s by simp
qed

lemma ACHBasicPayment_toString_isl:
  assumes "seg \<in> set (segments b)" and "isl (Segment_toString seg)"
  shows "isl (ACHBasicPayment_toString b)"
proof -
  from assms(2) obtain err where "Segment_toString seg = Inl err"
    by (cases "Segment_toString seg") auto
  then have "Inl err \<in> set (map Segment_toString (segments b))"
    using assms(1) by force
  then have "isl (join (map Segment_toString (segments b)))"
    by (rule join_isl)
  then show ?thesis
    by (auto simp: ACHBasicPayment_toString_def bindE_def isl_def split: sum.splits)
qed

lemma ACHHeader_toString_file_date:
  "ACHHeader_toString (h\<lparr>file_date := d\<rparr>) = ACHHeader_toString h"
  by (simp add: ACHHeader_toString_def)

lemma new_header_file_date: "new_header now' ws = (new_header now ws)\<lparr>file_date := now'\<rparr>"
  by (simp add: new_header_def)

section \<open>Properties of the loop\<close>

text \<open>
  The loop is a partial function: its defining equation is unfolded one row at a time,
  and what holds of a run up to the row where the loop ends is shown by induction on the
  distance to that row.
\<close>

lemma new_payment_Inr:
  assumes "new_payment meta ws r st = Inr b"
  shows "type b = m_mode meta \<and> count b = RECORD_COUNT st \<and> file_no b = RECORD_COUNT st \<and>
         client_no b = m_client_no meta \<and> length (segments b) = 1 \<and>
         (\<forall>seg \<in> set (segments b). payment_date seg = m_payment_moment meta \<and>
            amount seg = cell ws r 6 \<and> customer_no seg = cell ws r 1)"
  using assms by (auto simp: new_payment_def Let_def bindE_Inr add_segment_def)

lemma accept_row_Inr:
  "accept_row meta ws r st = Inr st' \<longleftrightarrow>
     (\<exists>b. new_payment meta ws r st = Inr b \<and>
        st' = st\<lparr>RECORD_COUNT := RECORD_COUNT st + 1,
                 total_debit_amount := js_plus (total_debit_amount st) (cell ws r 6),
                 total_debit_records := total_debit_records st + 1,
                 payment_records := payment_records st @ [b]\<rparr>)"
  by (auto simp: accept_row_def bindE_Inr)

lemma accept_row_fails:
  assumes "isl (numeric (cell ws k 3) 4) \<or> isl (numeric (cell ws k 4) 5)"
  shows "\<exists>err. accept_row meta ws k st = Inl err"
  using assms
  by (cases "numeric (cell ws k 3) 4"; cases "numeric (cell ws k 4) 5")
    (simp_all add: accept_row_def new_payment_def bindE_def)

lemma payment_loop_end:
  "falsy (cell ws r 1) \<Longrightarrow> payment_loop meta ws r st = Some (Inr st)"
  by (subst payment_loop.simps) simp

lemma payment_loop_skip:
  "\<not> falsy (cell ws r 1) \<Longrightarrow> eq_y (cell ws r 7) \<Longrightarrow>
     payment_loop meta ws r st = payment_loop meta ws (Suc r) st"
  by (subst payment_loop.simps) simp

lemma payment_loop_accept:
  "\<not> falsy (cell ws r 1) \<Longrightarrow> \<not> eq_y (cell ws r 7) \<Longrightarrow> accept_row meta ws r st = Inr st' \<Longrightarrow>
     payment_loop meta ws r st = payment_loop meta ws (Suc r) st'"
  by (subst payment_loop.simps) simp

lemma payment_loop_throw:
  "\<not> falsy (cell ws r 1) \<Longrightarrow> \<not> eq_y (cell ws r 7) \<Longrightarrow> accept_row meta ws r st = Inl e \<Longrightarrow>
     payment_loop meta ws r st = Some (Inl e)"
  by (subst payment_loop.simps) simp

lemma payment_loop_returns:
  assumes "falsy (cell ws e 1)"
  shows "r \<le> e \<Longrightarrow> \<exists>y. payment_loop meta ws r st = Some y"
proof (induction "e - r" arbitrary: r st)
  case 0
  then have "r = e" by simp
  with assms show ?case by (simp add: payment_loop_end)
next
  case (Suc d)
  then have d: "d = e - Suc r" and le: "Suc r \<le> e" by simp_all
  show ?case
  proof (cases "falsy (cell ws r 1)")
    case True
    then show ?thesis by (simp add: payment_loop_end)
  next
    case nf: False
    show ?thesis
    proof (cases "eq_y (cell ws r 7)")
      case True
      with nf Suc.hyps(1) [OF d le] show ?thesis
        by (simp add: payment_loop_skip)
    next
      case ny: False
      show ?thesis
      proof (cases "accept_row meta ws r st")
        case (Inl err)
        with nf ny show ?thesis by (simp add: payment_loop_throw)
      next
        case (Inr st1)
        with nf ny Suc.hyps(1) [OF d le] show ?thesis
          by (simp add: payment_loop_accept)
      qed
    qed
  qed
qed

lemma payment_loop_fails:
  assumes "accepted ws k"
    and "isl (numeric (cell ws k 3) 4) \<or> isl (numeric (cell ws k 4) 5)"
  shows "r \<le> k \<Longrightarrow> \<forall>j. r \<le> j \<and> j < k \<longrightarrow> \<not> falsy (cell ws j 1) \<Longrightarrow>
         \<exists>err. payment_loop meta ws r st = Some (Inl err)"
proof (induction "k - r" arbitrary: r st)
  case 0
  then have "r = k" by simp
  moreover obtain err where "accept_row meta ws k st = Inl err"
    using accept_row_fails [OF assms(2)] by blast
  ultimately show ?case
    using assms(1) by (auto simp: accepted_def payment_loop_throw)
next
  case (Suc d)
  then have d: "d = k - Suc r" and le: "Suc r \<le> k" by simp_all
  have nf: "\<not> falsy (cell ws r 1)"
    using Suc.prems le by simp
  have later: "\<forall>j. Suc r \<le> j \<and> j < k \<longrightarrow> \<not> falsy (cell ws j 1)"
    using Suc.prems by simp
  note IH = Suc.hyps(1) [OF d le later]
  show ?case
  proof (cases "eq_y (cell ws r 7)")
    case True
    with nf IH show ?thesis by (simp add: payment_loop_skip)
  next
    case ny: False
    show ?thesis
    proof (cases "accept_row meta ws r st")
      case (Inl err)
      with nf ny show ?thesis by (simp add: payment_loop_throw)
    next
      case (Inr st1)
      with nf ny IH show ?thesis by (simp add: payment_loop_accept)
    qed
  qed
qed

lemma payment_loop_inv:
  assumes "falsy (cell ws e 1)"
  shows "r \<le> e \<Longrightarrow> \<forall>k. r \<le> k \<and> k < e \<longrightarrow> \<not> falsy (cell ws k 1) \<Longrightarrow>
         payment_loop meta ws r st = Some (Inr st') \<Longrightarrow>
         RECORD_COUNT st' = RECORD_COUNT st + length (filter (accepted ws) [r..<e]) \<and>
         total_debit_records st' = total_debit_records st + length (filter (accepted ws) [r..<e]) \<and>
         (\<exists>ds. payment_records st' = payment_records st @ ds \<and>
               length ds = length (filter (accepted ws) [r..<e]) \<and>
               map count ds = [RECORD_COUNT st ..< RECORD_COUNT st + length ds])"
proof (induction "e - r" arbitrary: r st)
  case 0
  then have "r = e" by simp
  with assms 0 show ?case by (simp add: payment_loop_end)
next
  case (Suc d)
  then have d: "d = e - Suc r" and le: "Suc r \<le> e" by simp_all
  have nf: "\<not> falsy (cell ws r 1)"
    using Suc.prems le by simp
  have later: "\<forall>k. Suc r \<le> k \<and> k < e \<longrightarrow> \<not> falsy (cell ws k 1)"
    using Suc.prems by simp
  have upt: "[r..<e] = r # [Suc r..<e]"
    using le by (simp add: upt_conv_Cons)
  note IH = Suc.hyps(1) [OF d le later]
  show ?case
  proof (cases "eq_y (cell ws r 7)")
    case True
    with nf Suc.prems(3) have "payment_loop meta ws (Suc r) st = Some (Inr st')"
      by (simp add: payment_loop_skip)
    from IH [OF this] True show ?thesis
      by (simp add: upt accepted_def)
  next
    case ny: False
    show ?thesis
    proof (cases "accept_row meta ws r st")
      case (Inl err)
      with nf ny Suc.prems(3) show ?thesis by (simp add: payment_loop_throw)
    next
      case (Inr st1)
      with nf ny Suc.prems(3) have "payment_loop meta ws (Suc r) st1 = Some (Inr st')"
        by (simp add: payment_loop_accept)
      note ih = IH [OF this]
      from Inr obtain b where b: "new_payment meta ws r st = Inr b" and
        st1: "st1 = st\<lparr>RECORD_COUNT := RECORD_COUNT st + 1,
                 total_debit_amount := js_plus (total_debit_amount st) (cell ws r 6),
                 total_debit_records := total_debit_records st + 1,
                 payment_records := payment_records st @ [b]\<rparr>"
        by (auto simp: accept_row_Inr)
      have cb: "count b = RECORD_COUNT st"
        using new_payment_Inr [OF b] by simp
      from ih obtain ds where ds: "payment_records st' = payment_records st1 @ ds"
        "length ds = length (filter (accepted ws) [Suc r..<e])"
        "map count ds = [RECORD_COUNT st1 ..< RECORD_COUNT st1 + length ds]"
        by blast
      have acc: "accepted ws r"
        using nf ny by (simp add: accepted_def)
      have "payment_records st' = payment_records st @ (b # ds)"
        using ds(1) st1 by simp
      moreover have "length (b # ds) = length (filter (accepted ws) [r..<e])"
        using ds(2) acc by (simp add: upt)
      moreover have "[RECORD_COUNT st ..< RECORD_COUNT st + length (b # ds)] =
          RECORD_COUNT st # [RECORD_COUNT st1 ..< RECORD_COUNT st1 + length ds]"
        using st1 by (simp add: upt_conv_Cons del: upt_Suc)
      then have "map count (b # ds) = [RECORD_COUNT st ..< RECORD_COUNT st + length (b # ds)]"
        using ds(3) cb by simp
      ultimately have "\<exists>ds. payment_records st' = payment_records st @ ds \<and>
               length ds = length (filter (accepted ws) [r..<e]) \<and>
               map count ds = [RECORD_COUNT st ..< RECORD_COUNT st + length ds]"
        by blast
      moreover have "RECORD_COUNT st' = RECORD_COUNT st + length (filter (accepted ws) [r..<e])"
        using ih st1 acc by (simp add: upt)
      moreover have "total_debit_records st' = total_debit_records st + length (filter (accepted ws) [r..<e])"
        using ih st1 acc by (simp add: upt)
      ultimately show ?thesis by blast
    qed
  qed
qed

lemma end_of_data_iff:
  "end_of_data ws e \<longleftrightarrow> 8 \<le> e \<and> falsy (cell ws e 1) \<and> (\<forall>k. 8 \<le> k \<and> k < e \<longrightarrow> \<not> falsy (cell ws k 1))"
  by (auto simp: end_of_data_def)

section \<open>The running total\<close>

text \<open>
  The total the loop hands to the Trailer is the left-to-right \<^verbatim>\<open>+=\<close> of the amount
  cells of the accepted rows; over numbers it is their sum.
\<close>

lemma js_plus_numbers: "foldl js_plus (JNum a) (map JNum xs) = JNum (a + sum_list xs)"
  by (induction xs arbitrary: a) (simp_all add: add.assoc)

lemma payment_loop_total:
  assumes "falsy (cell ws e 1)"
  shows "r \<le> e \<Longrightarrow> \<forall>k. r \<le> k \<and> k < e \<longrightarrow> \<not> falsy (cell ws k 1) \<Longrightarrow>
         payment_loop meta ws r st = Some (Inr st') \<Longrightarrow>
         total_debit_amount st' =
           foldl js_plus (total_debit_amount st) (map (\<lambda>k. cell ws k 6) (filter (accepted ws) [r..<e]))"
proof (induction "e - r" arbitrary: r st)
  case 0
  then have "r = e" by simp
  with assms 0 show ?case by (simp add: payment_loop_end)
next
  case (Suc d)
  then have d: "d = e - Suc r" and le: "Suc r \<le> e" by simp_all
  have nf: "\<not> falsy (cell ws r 1)"
    using Suc.prems le by simp
  have later: "\<forall>k. Suc r \<le> k \<and> k < e \<longrightarrow> \<not> falsy (cell ws k 1)"
    using Suc.prems by simp
  have upt: "[r..<e] = r # [Suc r..<e]"
    using le by (simp add: upt_conv_Cons)
  note IH = Suc.hyps(1) [OF d le later]
  show ?case
  proof (cases "eq_y (cell ws r 7)")
    case True
    with nf Suc.prems(3) have "payment_loop meta ws (Suc r) st = Some (Inr st')"
      by (simp add: payment_loop_skip)
    from IH [OF this] True show ?thesis
      by (simp add: upt accepted_def)
  next
    case ny: False
    show ?thesis
    proof (cases "accept_row meta ws r st")
      case (Inl err)
      with nf ny Suc.prems(3) show ?thesis by (simp add: payment_loop_throw)
    next
      case (Inr st1)
      with nf ny Suc.prems(3) have "payment_loop meta ws (Suc r) st1 = Some (Inr st')"
        by (simp add: payment_loop_accept)
      note ih = IH [OF this]
      have "total_debit_amount st1 = js_plus (total_debit_amount st) (cell ws r 6)"
        using Inr by (auto simp: accept_row_Inr)
      moreover have "accepted ws r"
        using nf ny by (simp add: accepted_def)
      ultimately show ?thesis
        using ih by (simp add: upt)
    qed
  qed
qed

section \<open>Properties of the output\<close>

lemma write_records_None:
  "snd (write_records recs fd) = None \<longleftrightarrow> (\<forall>b \<in> set recs. \<not> isl (ACHBasicPayment_toString b))"
  by (induction recs arbitrary: fd) (auto split: sum.splits)

lemma write_records_content:
  "snd (write_records recs fd) = None \<Longrightarrow>
     fst (write_records recs fd) =
       fd @ concat (map (\<lambda>b. projr (ACHBasicPayment_toString b) @ delimiter) recs)"
  by (induction recs arbitrary: fd) (auto split: sum.splits)

lemma write_file_thrown:
  "thrown (write_file h recs t) = None \<longleftrightarrow>
     \<not> isl (ACHHeader_toString h) \<and> (\<forall>b \<in> set recs. \<not> isl (ACHBasicPayment_toString b)) \<and>
     \<not> isl (ACHTrailer_toString t)"
proof (cases "ACHHeader_toString h")
  case (Inl e)
  then show ?thesis by (simp add: write_file_def)
next
  case (Inr hs)
  obtain fd err where w: "write_records recs (hs @ delimiter) = (fd, err)"
    by (cases "write_records recs (hs @ delimiter)") blast
  show ?thesis
    using Inr w write_records_None [of recs "hs @ delimiter"]
    by (cases err; cases "ACHTrailer_toString t") (simp_all add: write_file_def)
qed

lemma write_file_content:
  assumes "thrown (write_file h recs t) = None"
  shows "out_file (write_file h recs t) =
     Some (projr (ACHHeader_toString h) @ delimiter @
           concat (map (\<lambda>b. projr (ACHBasicPayment_toString b) @ delimiter) recs) @
           projr (ACHTrailer_toString t))"
proof -
  from assms obtain hs ts where h: "ACHHeader_toString h = Inr hs" and t: "ACHTrailer_toString t = Inr ts"
    and r: "\<forall>b \<in> set recs. \<not> isl (ACHBasicPayment_toString b)"
    unfolding write_file_thrown by (cases "ACHHeader_toString h"; cases "ACHTrailer_toString t") auto
  obtain fd err where w: "write_records recs (hs @ delimiter) = (fd, err)"
    by (cases "write_records recs (hs @ delimiter)") blast
  have "err = None"
    using w r write_records_None [of recs "hs @ delimiter"] by simp
  moreover have "fd = (hs @ delimiter) @ concat (map (\<lambda>b. projr (ACHBasicPayment_toString b) @ delimiter) recs)"
    using w \<open>err = None\<close> write_records_content [of recs "hs @ delimiter"] by simp
  ultimately show ?thesis
    using h t w by (simp add: write_file_def)
qed

lemma write_file_header_cong:
  "ACHHeader_toString h' = ACHHeader_toString h \<Longrightarrow> write_file h' recs t = write_file h recs t"
  by (simp add: write_file_def)

lemma upt_nth_offset: "i < n \<Longrightarrow> [a ..< a + n] ! i = a + i"
  by simp

lemma assemble_Inr:
  assumes "end_of_data ws e" and "assemble parse now ws mode = Some (Inr (header, recs, t))"
  shows "count header = 1 \<and> map count recs = [2 ..< 2 + length recs] \<and>
         count t = 2 + length recs \<and> debit_count t = length recs \<and>
         length recs = length (filter (accepted ws) [8..<e])"
proof -
  let ?meta = "read_metadata parse ws mode"
  from assms(2) obtain st where
    loop: "payment_loop ?meta ws 8 initial_state = Some (Inr st)" and
    h: "header = new_header now ws" and recs: "recs = payment_records st" and
    t: "t = new_trailer ?meta st"
    by (auto simp: assemble_def Let_def split: option.splits sum.splits)
  from assms(1) have e: "falsy (cell ws e 1)" "8 \<le> e" "\<forall>k. 8 \<le> k \<and> k < e \<longrightarrow> \<not> falsy (cell ws k 1)"
    by (simp_all add: end_of_data_iff)
  note inv = payment_loop_inv [OF e(1) e(2) e(3) loop]
  from inv obtain ds where ds: "payment_records st = payment_records initial_state @ ds"
    "length ds = length (filter (accepted ws) [8..<e])"
    "map count ds = [RECORD_COUNT initial_state ..< RECORD_COUNT initial_state + length ds]"
    by blast
  have "recs = ds"
    using ds(1) recs by (simp add: initial_state_def)
  then show ?thesis
    using inv ds h t by (simp add: initial_state_def new_header_def new_trailer_def)
qed

lemma assemble_returns:
  assumes "8 \<le> e" and "falsy (cell ws e 1)"
  shows "\<exists>res. assemble parse now ws mode = Some res"
proof -
  obtain y where "payment_loop (read_metadata parse ws mode) ws 8 initial_state = Some y"
    using payment_loop_returns [OF assms(2,1)] by blast
  then show ?thesis
    by (cases y) (simp_all add: assemble_def)
qed


lemma writeACHFile_returns:
  assumes "8 \<le> e" and "falsy (cell ws e 1)"
  shows "\<exists>out. writeACHFile parse now ws mode = Some out"
proof -
  obtain res where "assemble parse now ws mode = Some res"
    using assemble_returns [OF assms] by blast
  then show ?thesis
    by (cases res) (auto simp: writeACHFile_def)
qed


lemma writeACHFile_render_fails:
  assumes "assemble parse now ws mode = Some (Inr (header, recs, t))"
    and "isl (ACHHeader_toString header) \<or> (\<exists>b \<in> set recs. isl (ACHBasicPayment_toString b)) \<or>
         isl (ACHTrailer_toString t)"
  shows "\<exists>out err. writeACHFile parse now ws mode = Some out \<and> thrown out = Some err"
proof -
  have "thrown (write_file header recs t) \<noteq> None"
    using assms(2) unfolding write_file_thrown by blast
  then show ?thesis
    using assms(1) by (auto simp: writeACHFile_def)
qed

lemma writeACHFile_loop_fails:
  assumes "8 \<le> k" and "\<forall>j \<in> set [8..<k]. \<not> falsy (cell ws j 1)" and "accepted ws k"
    and "isl (numeric (cell ws k 3) 4) \<or> isl (numeric (cell ws k 4) 5)"
  shows "\<exists>err. writeACHFile parse now ws mode = Some \<lparr>out_file = None, thrown = Some err\<rparr>"
proof -
  have "\<forall>j. 8 \<le> j \<and> j < k \<longrightarrow> \<not> falsy (cell ws j 1)"
    using assms(2) by simp
  from payment_loop_fails [OF assms(3,4,1) this]
  obtain err where "payment_loop (read_metadata parse ws mode) ws 8 initial_state = Some (Inl err)"
    by blast
  then show ?thesis
    by (simp add: writeACHFile_def assemble_def)
qed

lemma writeACHFile_clock: "writeACHFile parse now' ws mode = writeACHFile parse now ws mode"
proof -
  have h: "ACHHeader_toString (new_header now' ws) = ACHHeader_toString (new_header now ws)"
    by (simp add: new_header_file_date [of now' ws now] ACHHeader_toString_file_date)
  show ?thesis
  proof (cases "payment_loop (read_metadata parse ws mode) ws 8 initial_state")
    case None
    then show ?thesis by (simp add: writeACHFile_def assemble_def)
  next
    case (Some y)
    then show ?thesis
      using write_file_header_cong [OF h]
      by (cases y) (simp_all add: writeACHFile_def assemble_def)
  qed
qed

section \<open>Sheets that are the same up to a row\<close>

lemma same_row_cells:
  assumes "same_row ws ws' r"
  shows "cell ws' r 1 = cell ws r 1" "cell ws' r 2 = cell ws r 2" "cell ws' r 3 = cell ws r 3"
    "cell ws' r 4 = cell ws r 4" "cell ws' r 5 = cell ws r 5" "cell ws' r 6 = cell ws r 6"
    "cell ws' r 7 = cell ws r 7" "cell ws' r (Suc 0) = cell ws r (Suc 0)"
  using assms by (simp_all add: same_row_def)

lemma same_uptoD: "same_upto ws ws' e \<Longrightarrow> 1 \<le> r \<Longrightarrow> r \<le> e \<Longrightarrow> same_row ws ws' r"
  unfolding same_upto_def set_upt by auto

lemma new_payment_cong:
  "same_row ws ws' r \<Longrightarrow> new_payment meta ws' r st = new_payment meta ws r st"
  by (simp add: new_payment_def same_row_cells)

lemma accept_row_cong:
  "same_row ws ws' r \<Longrightarrow> accept_row meta ws' r st = accept_row meta ws r st"
  by (simp add: accept_row_def new_payment_cong same_row_cells)

lemma payment_loop_cong:
  assumes "falsy (cell ws e 1)" and "falsy (cell ws' e 1)"
  shows "r \<le> e \<Longrightarrow> \<forall>k. r \<le> k \<and> k < e \<longrightarrow> same_row ws ws' k \<Longrightarrow>
         payment_loop meta ws' r st = payment_loop meta ws r st"
proof (induction "e - r" arbitrary: r st)
  case 0
  then have "r = e" by simp
  with assms show ?case by (simp add: payment_loop_end)
next
  case (Suc d)
  then have d: "d = e - Suc r" and le: "Suc r \<le> e" by simp_all
  have here: "same_row ws ws' r"
    using Suc.prems le by simp
  have later: "\<forall>k. Suc r \<le> k \<and> k < e \<longrightarrow> same_row ws ws' k"
    using Suc.prems by simp
  note IH = Suc.hyps(1) [OF d le later]
  note cells = same_row_cells(1,7) [OF here]
  show ?case
  proof (cases "falsy (cell ws r 1)")
    case True
    with cells show ?thesis by (simp add: payment_loop_end)
  next
    case nf: False
    show ?thesis
    proof (cases "eq_y (cell ws r 7)")
      case True
      with nf cells IH show ?thesis
        by (simp add: payment_loop_skip)
    next
      case ny: False
      show ?thesis
      proof (cases "accept_row meta ws r st")
        case (Inl err)
        with nf ny cells accept_row_cong [OF here] show ?thesis
          by (simp add: payment_loop_throw)
      next
        case (Inr st1)
        with nf ny cells accept_row_cong [OF here] IH show ?thesis
          by (simp add: payment_loop_accept)
      qed
    qed
  qed
qed

lemma assemble_cong:
  assumes "8 \<le> e" and "falsy (cell ws e 1)" and "falsy (cell ws' e 1)" and "same_upto ws ws' (e - 1)"
  shows "assemble parse now ws' mode = assemble parse now ws mode"
proof -
  have rows: "\<forall>k. 8 \<le> k \<and> k < e \<longrightarrow> same_row ws ws' k"
    using assms(4) by (auto intro: same_uptoD)
  have "same_row ws ws' 1" "same_row ws ws' 2" "same_row ws ws' 3" "same_row ws ws' 4"
    "same_row ws ws' 5" "same_row ws ws' 6"
    using assms(1,4) by (simp_all add: same_uptoD)
  then have "read_metadata parse ws' mode = read_metadata parse ws mode"
    and "new_header now ws' = new_header now ws"
    by (simp_all add: read_metadata_def new_header_def same_row_cells)
  then show ?thesis
    using payment_loop_cong [OF assms(2,3,1) rows] by (simp add: assemble_def)
qed

lemma writeACHFile_cong:
  assumes "8 \<le> e" and "falsy (cell ws e 1)" and "falsy (cell ws' e 1)" and "same_upto ws ws' (e - 1)"
  shows "writeACHFile parse now ws' mode = writeACHFile parse now ws mode"
  using assemble_cong [OF assms] by (simp add: writeACHFile_def)

section \<open>Termination on finite sheets\<close>

text \<open>
  The addresses of column A differ from row to row, so a sheet with finitely many cells
  has a row without a customer number, where the loop ends: every run on a finite sheet
  returns.
\<close>

lemma xl_row_col_inj: "xl_row_col r c = xl_row_col r' c \<Longrightarrow> r = r'"
  by (simp add: xl_row_col_def digits_inj)

lemma finite_sheet_ends:
  assumes "finite (dom ws)"
  shows "\<exists>e\<ge>8. cell ws e 1 = JNull"
proof (rule ccontr)
  assume "\<not> (\<exists>e\<ge>8. cell ws e 1 = JNull)"
  then have "\<forall>n. xl_row_col (n + 8) 1 \<in> dom ws"
    by (auto simp: cell_def split: option.splits)
  then have "range (\<lambda>n. xl_row_col (n + 8) 1) \<subseteq> dom ws"
    by blast
  then have "finite (range (\<lambda>n. xl_row_col (n + 8) 1))"
    using assms by (rule finite_subset)
  moreover have "inj (\<lambda>n. xl_row_col (n + 8) 1)"
    by (auto simp: inj_on_def dest: xl_row_col_inj)
  ultimately have "finite (UNIV :: nat set)"
    by (rule finite_imageD)
  then show False
    by simp
qed

lemma writeACHFile_finite:
  assumes "finite (dom ws)"
  shows "\<exists>out. writeACHFile parse now ws mode = Some out"
proof -
  obtain e where "8 \<le> e" and "cell ws e 1 = JNull"
    using finite_sheet_ends [OF assms] by blast
  then show ?thesis
    by (intro writeACHFile_returns [of e]) simp_all
qed

section \<open>Evaluation of the example sheets\<close>

text \<open>
  The example runs are evaluated by rewriting with the definitions; the facts below are
  the values the claims' examples use.
\<close>

lemmas cell_eval = cell_def xl_row_col_def col_addr.simps cols_at_def cols_def digits.simps
  digit_char_def trim_def is_space_def

lemma replicate_numeral: "replicate (numeral k) x = x # replicate (pred_numeral k) x"
  by (simp add: numeral_eq_Suc)

lemma ex_sheet_row8:
  "cell ex_sheet 8 1 = JNum 100100" "cell ex_sheet 8 (Suc 0) = JNum 100100"
  "cell ex_sheet 8 2 = JStr ''JOHN DOE''"
  "cell ex_sheet 8 3 = JNum 300" "cell ex_sheet 8 4 = JNum 1234500"
  "cell ex_sheet 8 5 = JStr ''7654321''" "cell ex_sheet 8 6 = JNum 10000"
  "cell ex_sheet 8 7 = JNull"
  by (simp_all add: cell_eval ex_sheet_def)

lemma ex_sheet_row9:
  "cell ex_sheet 9 1 = JNum 100200" "cell ex_sheet 9 (Suc 0) = JNum 100200"
  "cell ex_sheet 9 7 = JStr ''y''"
  by (simp_all add: cell_eval ex_sheet_def)

lemma ex_sheet_row10:
  "cell ex_sheet 10 1 = JStr ''''" "cell ex_sheet 10 (Suc 0) = JStr ''''"
  by (simp_all add: cell_eval ex_sheet_def)

lemma ex_sheet_meta:
  "cell ex_sheet 1 2 = JStr ''ACME LTD''" "cell ex_sheet 2 2 = JStr ''0012345678''"
  "cell ex_sheet 3 2 = JNum 302000" "cell ex_sheet 4 2 = JStr ''CAD''"
  "cell ex_sheet 5 2 = JStr ''2021/03/15''" "cell ex_sheet 6 2 = JNum 43000"
  "cell ex_sheet (Suc 0) 2 = JStr ''ACME LTD''"
  by (simp_all add: cell_eval ex_sheet_def)

lemma ex_meta_eval:
  "ex_meta mode = \<lparr>m_mode = mode, m_client_name = JStr ''ACME LTD'',
     m_client_no = JStr ''0012345678'', m_payment_moment = Date 2021 3 15,
     m_transaction_code = JNum 43000\<rparr>"
  by (simp add: ex_meta_def read_metadata_def ex_sheet_meta ex_parse_def)

lemmas fmt_eval = alphanumeric_def numeric_def money_def bindE_def repeat_def
  concat_replicate_single replicate_numeral Number_toString_def Number_toFixed2_def
  sign_text_def digits.simps digit_char_def replace_dot_def whole_def

lemma ex_transit: "numeric (JNum 300) 4 = Inr ''0003''" "numeric (JNum 1234500) 5 = Inr ''12345''"
  by (simp_all add: fmt_eval)

lemma ex_new_payment: "new_payment (ex_meta mode) ex_sheet 8 initial_state = Inr (ex_payment mode)"
  by (simp add: new_payment_def ex_meta_eval ex_sheet_row8 ex_transit bindE_def
      initial_state_def add_segment_def ex_payment_def ex_segment_def)

lemma ex_segment_eval: "Segment_toString ex_segment = Inr ex_segment_text"
  by (simp add: Segment_toString_def ex_segment_def ex_segment_text_def fmt_eval
      dayOfYear_def daysInMonth_def leap_def zeroFill_def upt_rec)

lemma ex_payment_eval: "ACHBasicPayment_toString (ex_payment ''D'') = Inr ex_payment_text"
  by (simp add: ACHBasicPayment_toString_def ex_payment_def ex_segment_eval ex_payment_text_def
      fmt_eval)

lemma ex_payment_PAD: "ACHBasicPayment_toString (ex_payment ''PAD'') = Inl RangeError"
  by (simp add: ACHBasicPayment_toString_def ex_payment_def fmt_eval)

lemma ex_payment_text_length: "length ex_payment_text = 264"
  by (simp add: ex_payment_text_def ex_segment_text_def)

lemma ex_accepted: "accepted ex_sheet 8"
  by (simp add: accepted_def ex_sheet_row8)

lemma ex_valid: "isValid (m_payment_moment (ex_meta mode))"
  by (simp add: ex_meta_eval valid_date_def daysInMonth_def)

lemma ex_accept_row: "accept_row (ex_meta mode) ex_sheet 8 initial_state = Inr (ex_state mode)"
  by (simp add: accept_row_def ex_new_payment bindE_def ex_sheet_row8,
      simp add: initial_state_def ex_state_def)

lemma ex_loop_from_9: "payment_loop meta ex_sheet 9 st = Some (Inr st)"
proof -
  have "payment_loop meta ex_sheet 9 st = payment_loop meta ex_sheet (Suc 9) st"
    by (rule payment_loop_skip) (simp_all add: ex_sheet_row9)
  also have "\<dots> = Some (Inr st)"
    by (simp add: payment_loop_end ex_sheet_row10)
  finally show ?thesis .
qed

lemma ex_loop: "payment_loop (ex_meta mode) ex_sheet 8 initial_state = Some (Inr (ex_state mode))"
proof -
  have "payment_loop (ex_meta mode) ex_sheet 8 initial_state =
        payment_loop (ex_meta mode) ex_sheet (Suc 8) (ex_state mode)"
    by (rule payment_loop_accept) (simp_all add: ex_sheet_row8 ex_accept_row)
  then show ?thesis
    by (simp add: ex_loop_from_9)
qed

lemma ex_end_of_data: "end_of_data ex_sheet 10"
  by (simp add: end_of_data_def upt_rec ex_sheet_row8 ex_sheet_row9 ex_sheet_row10)

lemma ex_accepted_rows: "filter (accepted ex_sheet) [8..<10] = [8]"
  by (simp add: upt_rec accepted_def ex_sheet_row8 ex_sheet_row9)

lemma ex_new_trailer: "new_trailer (ex_meta mode) (ex_state mode) = ex_trailer"
  by (simp add: new_trailer_def ex_meta_eval ex_state_def ex_trailer_def)

lemma ex_assemble:
  "assemble ex_parse now ex_sheet mode =
     Some (Inr (new_header now ex_sheet, [ex_payment mode], ex_trailer))"
  using ex_loop [of mode] ex_new_trailer [of mode]
  by (simp add: assemble_def ex_meta_def ex_state_def)

lemma ex_header_eval: "ACHHeader_toString (new_header now ex_sheet) = Inr ex_header_text"
  by (simp add: ACHHeader_toString_def new_header_def ex_sheet_meta ex_header_text_def fmt_eval)

lemma ex_trailer_fields:
  "alphanumeric (JStr ''Z'') 1 = Inr ''Z''" "alphanumeric (JStr ''Z'') (Suc 0) = Inr ''Z''"
  "numeric (whole 3) 9 = Inr ''000000003''"
  "alphanumeric (JStr ''0012345678'') 10 = Inr ''0012345678''"
  "alphanumeric (whole 3) 4 = Inr ''3   ''"
  "money (JNum 10000) 14 = Inr ''00000000010000''"
  "numeric (whole 1) 8 = Inr ''00000001''" "numeric (whole (Suc 0)) 8 = Inr ''00000001''"
  by (simp_all add: fmt_eval)

lemma ex_trailer_eval: "ACHTrailer_toString ex_trailer = Inr ex_trailer_text"
  by (simp add: ACHTrailer_toString_def ex_trailer_def ex_trailer_text_def ex_trailer_fields
      repeat_def concat_replicate_single bindE_def)

lemma ex_write_file:
  "write_file (new_header now ex_sheet) [ex_payment ''D''] ex_trailer =
     \<lparr>out_file = Some (ex_header_text @ delimiter @ ex_payment_text @ delimiter @ ex_trailer_text),
      thrown = None\<rparr>"
  by (simp add: write_file_def ex_header_eval ex_payment_eval ex_trailer_eval)

lemma ex_writeACHFile:
  "writeACHFile ex_parse now ex_sheet ''D'' =
     Some \<lparr>out_file = Some (ex_header_text @ delimiter @ ex_payment_text @ delimiter @ ex_trailer_text),
           thrown = None\<rparr>"
  by (simp add: writeACHFile_def ex_assemble ex_write_file)

lemma ex_suspended_cells:
  "cell ex_sheet_suspended 8 1 = JNull" "cell ex_sheet_suspended 8 (Suc 0) = JNull"
  "cell ex_sheet_suspended 8 7 = JStr ''y''"
  "cell ex_sheet_suspended 9 1 = JNum 100200" "cell ex_sheet_suspended 9 (Suc 0) = JNum 100200"
  "cell ex_sheet_suspended 9 3 = JNum 300" "cell ex_sheet_suspended 9 4 = JNum 1234500"
  "cell ex_sheet_suspended 9 7 = JNull"
  "cell ex_sheet_suspended 10 1 = JNull" "cell ex_sheet_suspended 10 (Suc 0) = JNull"
  by (simp_all add: cell_eval ex_sheet_suspended_def)

lemma ex_suspended_from_9:
  "payment_loop meta ex_sheet_suspended 9 initial_state \<noteq> Some (Inr initial_state)"
proof -
  obtain b where b: "new_payment meta ex_sheet_suspended 9 initial_state = Inr b"
    by (simp add: new_payment_def ex_suspended_cells ex_transit bindE_def)
  define st1 where "st1 = initial_state\<lparr>RECORD_COUNT := RECORD_COUNT initial_state + 1,
      total_debit_amount := js_plus (total_debit_amount initial_state) (cell ex_sheet_suspended 9 6),
      total_debit_records := total_debit_records initial_state + 1,
      payment_records := payment_records initial_state @ [b]\<rparr>"
  have a: "accept_row meta ex_sheet_suspended 9 initial_state = Inr st1"
    unfolding accept_row_Inr st1_def using b by blast
  have "payment_loop meta ex_sheet_suspended 9 initial_state =
        payment_loop meta ex_sheet_suspended (Suc 9) st1"
    by (rule payment_loop_accept) (simp_all add: ex_suspended_cells a)
  also have "\<dots> = Some (Inr st1)"
    by (simp add: payment_loop_end ex_suspended_cells)
  finally show ?thesis
    by (simp add: st1_def initial_state_def)
qed


lemma ex_same_upto_zero: "same_upto ex_sheet_zero ex_sheet 9"
  by (simp add: same_upto_def same_row_def upt_rec cell_eval ex_sheet_zero_def ex_sheet_def)

lemma ex_zero_cell: "cell ex_sheet_zero 10 1 = JNum 0"
  by (simp add: cell_eval ex_sheet_zero_def)

lemma ex_late_meta:
  "cell ex_sheet_late 2 2 = JStr ''0012345678''" "cell ex_sheet_late 3 2 = JNum 302000"
  "cell ex_sheet_late 4 2 = JStr ''CAD''"
  by (simp_all add: cell_eval ex_sheet_late_def ex_sheet_def)

lemma ex_overflows:
  "alphanumeric (JStr ''ABCD'') 3 = Inl RangeError" "numeric (JStr ''ABCD'') 3 = Inl RangeError"
  "toFixed2 (JNum 12345678901) = Inr ''123456789.01''"
  "Number_toFixed2 12345678901 = ''123456789.01''"
  "replace_dot ''123456789.01'' = ''12345678901''"
  "money (JNum 12345678901) 10 = Inl RangeError"
  "numeric (JNum 12345600) 4 = Inl RangeError"
  by (simp_all add: fmt_eval)

lemma ex_fits:
  "alphanumeric (JStr ''ABC'') 6 = Inr ''ABC   ''" "numeric (JNum 700) 5 = Inr ''00007''"
  "money (JNum 123450) 10 = Inr ''0000123450''"
  by (simp_all add: fmt_eval)

lemma ex_wide_segment_eval: "Segment_toString ex_wide_segment = Inl RangeError"
  by (simp add: Segment_toString_def ex_wide_segment_def ex_segment_def fmt_eval)

lemma ex_wide_payment_eval:
  "ACHBasicPayment_toString ((ex_payment ''D'')\<lparr>segments := [ex_wide_segment]\<rparr>) = Inl RangeError"
  by (simp add: ACHBasicPayment_toString_def ex_payment_def ex_wide_segment_eval fmt_eval)

lemma ex_write_file_PAD:
  "write_file (new_header now ex_sheet) [ex_payment ''PAD''] ex_trailer =
     \<lparr>out_file = Some (ex_header_text @ delimiter), thrown = Some RangeError\<rparr>"
  by (simp add: write_file_def ex_header_eval ex_payment_PAD)

lemma ex_writeACHFile_PAD:
  "writeACHFile ex_parse now ex_sheet ''PAD'' =
     Some \<lparr>out_file = Some (ex_header_text @ delimiter), thrown = Some RangeError\<rparr>"
  by (simp add: writeACHFile_def ex_assemble ex_write_file_PAD)

lemma ex_bank_cells:
  "cell ex_sheet_bank 8 1 = JNum 100100" "cell ex_sheet_bank 8 (Suc 0) = JNum 100100"
  "cell ex_sheet_bank 8 3 = JNum 12345600" "cell ex_sheet_bank 8 7 = JNull"
  by (simp_all add: cell_eval ex_sheet_bank_def ex_sheet_def)

lemma ex_bank_accepted: "accepted ex_sheet_bank 8"
  by (simp add: accepted_def ex_bank_cells)

lemma ex_bank_loop: "payment_loop meta ex_sheet_bank 8 st = Some (Inl RangeError)"
proof -
  have "accept_row meta ex_sheet_bank 8 st = Inl RangeError"
    by (simp add: accept_row_def new_payment_def ex_bank_cells ex_overflows bindE_def)
  then show ?thesis
    by (intro payment_loop_throw) (simp_all add: ex_bank_cells)
qed

lemma ex_writeACHFile_bank:
  "writeACHFile ex_parse now ex_sheet_bank ''D'' = Some \<lparr>out_file = None, thrown = Some RangeError\<rparr>"
  by (simp add: writeACHFile_def assemble_def ex_bank_loop)

lemma ex_nodate_cells:
  "cell ex_sheet_nodate 5 2 = JNull"
  "cell ex_sheet_nodate 1 2 = cell ex_sheet 1 2" "cell ex_sheet_nodate (Suc 0) 2 = cell ex_sheet 1 2"
  "cell ex_sheet_nodate 2 2 = cell ex_sheet 2 2"
  "cell ex_sheet_nodate 3 2 = cell ex_sheet 3 2" "cell ex_sheet_nodate 4 2 = cell ex_sheet 4 2"
  "cell ex_sheet_nodate 6 2 = cell ex_sheet 6 2"
  by (simp_all add: cell_eval ex_sheet_nodate_def)

lemma ex_nodate_rows:
  "cell ex_sheet_nodate 8 1 = JNum 100100" "cell ex_sheet_nodate 8 (Suc 0) = JNum 100100"
  "cell ex_sheet_nodate 8 2 = JStr ''JOHN DOE''"
  "cell ex_sheet_nodate 8 3 = JNum 300" "cell ex_sheet_nodate 8 4 = JNum 1234500"
  "cell ex_sheet_nodate 8 5 = JStr ''7654321''" "cell ex_sheet_nodate 8 6 = JNum 10000"
  "cell ex_sheet_nodate 8 7 = JNull"
  "cell ex_sheet_nodate 9 1 = JNum 100200" "cell ex_sheet_nodate 9 (Suc 0) = JNum 100200"
  "cell ex_sheet_nodate 9 7 = JStr ''y''"
  "cell ex_sheet_nodate 10 1 = JStr ''''" "cell ex_sheet_nodate 10 (Suc 0) = JStr ''''"
  by (simp_all add: cell_eval ex_sheet_nodate_def ex_sheet_def)

lemma ex_nodate_meta:
  "read_metadata ex_parse ex_sheet_nodate mode = (ex_meta mode)\<lparr>m_payment_moment := Invalid_date\<rparr>"
  by (simp add: read_metadata_def ex_nodate_cells ex_sheet_meta ex_parse_def ex_meta_eval)

lemma ex_nodate_from_9: "payment_loop meta ex_sheet_nodate 9 st = Some (Inr st)"
proof -
  have "payment_loop meta ex_sheet_nodate 9 st = payment_loop meta ex_sheet_nodate (Suc 9) st"
    by (rule payment_loop_skip) (simp_all add: ex_nodate_rows)
  also have "\<dots> = Some (Inr st)"
    by (simp add: payment_loop_end ex_nodate_rows)
  finally show ?thesis .
qed

lemma ex_nodate_loop:
  "payment_loop ((ex_meta ''D'')\<lparr>m_payment_moment := Invalid_date\<rparr>) ex_sheet_nodate 8 initial_state =
     Some (Inr ((ex_state ''D'')\<lparr>payment_records := [ex_invalid_payment]\<rparr>))"
proof -
  let ?meta = "(ex_meta ''D'')\<lparr>m_payment_moment := Invalid_date\<rparr>"
  let ?st = "(ex_state ''D'')\<lparr>payment_records := [ex_invalid_payment]\<rparr>"
  have b: "new_payment ?meta ex_sheet_nodate 8 initial_state = Inr ex_invalid_payment"
    by (simp add: new_payment_def ex_meta_eval ex_nodate_rows ex_transit bindE_def
        initial_state_def add_segment_def ex_payment_def ex_segment_def ex_invalid_payment_def
        ex_invalid_segment_def)
  have a: "accept_row ?meta ex_sheet_nodate 8 initial_state = Inr ?st"
    by (simp add: accept_row_def b bindE_def ex_nodate_rows,
        simp add: initial_state_def ex_state_def)
  have "payment_loop ?meta ex_sheet_nodate 8 initial_state =
        payment_loop ?meta ex_sheet_nodate (Suc 8) ?st"
    by (rule payment_loop_accept) (simp_all add: ex_nodate_rows a)
  also have "\<dots> = Some (Inr ?st)"
    by (simp add: ex_nodate_from_9)
  finally show ?thesis .
qed

lemma ex_invalid_segment_eval: "Segment_toString ex_invalid_segment = Inr ex_invalid_segment_text"
  by (simp add: Segment_toString_def ex_invalid_segment_def ex_segment_def
      ex_invalid_segment_text_def fmt_eval)

lemma ex_invalid_payment_eval:
  "ACHBasicPayment_toString ex_invalid_payment = Inr ex_invalid_payment_text"
  by (simp add: ACHBasicPayment_toString_def ex_invalid_payment_def ex_payment_def
      ex_invalid_segment_eval ex_invalid_payment_text_def fmt_eval)

lemma ex_nodate_header: "ACHHeader_toString (new_header now ex_sheet_nodate) = Inr ex_header_text"
  using ex_header_eval [of now] by (simp add: ACHHeader_toString_def new_header_def ex_nodate_cells)

lemma ex_writeACHFile_nodate:
  "writeACHFile ex_parse now ex_sheet_nodate ''D'' =
     Some \<lparr>out_file = Some (ex_header_text @ delimiter @ ex_invalid_payment_text @ delimiter @
                             ex_trailer_text),
           thrown = None\<rparr>"
proof -
  have "new_trailer ((ex_meta ''D'')\<lparr>m_payment_moment := Invalid_date\<rparr>)
          ((ex_state ''D'')\<lparr>payment_records := [ex_invalid_payment]\<rparr>) = ex_trailer"
    by (simp add: new_trailer_def ex_meta_eval ex_state_def ex_trailer_def)
  then have "assemble ex_parse now ex_sheet_nodate ''D'' =
      Some (Inr (new_header now ex_sheet_nodate, [ex_invalid_payment], ex_trailer))"
    by (simp add: assemble_def ex_nodate_meta ex_nodate_loop)
  then show ?thesis
    by (simp add: writeACHFile_def write_file_def ex_nodate_header ex_invalid_payment_eval
        ex_trailer_eval)
qed

section \<open>Claims\<close>

text \<open>
  C1 (amended). For every row for which the loop body builds a Detail record, and for every
  mode: whenever rendering the record returns a text and the payment date is a valid date,
  the text has exactly 264 characters, 24 for the envelope (1+9+10+4) and 240 for the one
  segment (3+10+6+9+12+22+3+15+30+30+10+19+9+12+15+22+2+11), the payment date taking 6.
  Rendering returns a text only for a mode of at most one character.
\<close>

theorem detail_record_length:
  assumes "new_payment meta ws r st = Inr b"
    and "isValid (m_payment_moment meta)"
    and "ACHBasicPayment_toString b = Inr s"
  shows "length s = 264 \<and> length (m_mode meta) \<le> 1"
proof -
  note b = new_payment_Inr [OF assms(1)]
  have "\<And>seg. seg \<in> set (segments b) \<Longrightarrow> isValid (payment_date seg)"
    using b assms(2) by simp
  with assms(3) have "length s = 24 + 240 * length (segments b)"
    by (rule ACHBasicPayment_toString_length)
  moreover from assms(3) obtain a where "alphanumeric (JStr (type b)) 1 = Inr a"
    unfolding ACHBasicPayment_toString_def bindE_Inr join_Inr_Cons by blast
  then have "length (type b) \<le> 1"
    by (auto simp: alphanumeric_Inr)
  ultimately show ?thesis
    using b by simp
qed

theorem detail_record_length_witness:
  "new_payment (ex_meta ''D'') ex_sheet 8 initial_state = Inr (ex_payment ''D'') \<and>
   isValid (m_payment_moment (ex_meta ''D'')) \<and>
   ACHBasicPayment_toString (ex_payment ''D'') = Inr ex_payment_text \<and>
   length ex_payment_text = 264 \<and> length (m_mode (ex_meta ''D'')) \<le> 1"
  using detail_record_length [OF ex_new_payment ex_valid ex_payment_eval]
  by (simp add: ex_new_payment ex_valid ex_payment_eval)

text \<open>
  C1 as stated fails on row 8 of the example sheet, an accepted row with a valid payment
  date: with the mode \<^verbatim>\<open>"PAD"\<close> the type field is wider than its one character and
  rendering throws, and with a one-letter mode the text has 264 characters, not 265.
\<close>

theorem detail_record_length_counterexample:
  "accepted ex_sheet 8 \<and>
   new_payment (ex_meta ''PAD'') ex_sheet 8 initial_state = Inr (ex_payment ''PAD'') \<and>
   ACHBasicPayment_toString (ex_payment ''PAD'') = Inl RangeError \<and>
   new_payment (ex_meta ''D'') ex_sheet 8 initial_state = Inr (ex_payment ''D'') \<and>
   ACHBasicPayment_toString (ex_payment ''D'') = Inr ex_payment_text \<and>
   length ex_payment_text \<noteq> 265"
  by (simp add: ex_accepted ex_new_payment ex_payment_PAD ex_payment_eval ex_payment_text_length)

text \<open>
  C2 (amended). For every calendar date, the rendered payment-date field of a Detail
  record is exactly 6 characters, all digits: the character \<^verbatim>\<open>0\<close>, the year in two
  digits and the day of the year (from 1 to 366) in three. In the text of a segment it
  stands at offset 13.
\<close>

theorem payment_date_field:
  assumes "valid_date y m d"
  shows "format_0YYDDDD (Date y m d) = ''0'' @ zeroFill (y mod 100) 2 @ zeroFill (dayOfYear y m d) 3 \<and>
         length (zeroFill (y mod 100) 2) = 2 \<and>
         length (zeroFill (dayOfYear y m d) 3) = 3 \<and>
         1 \<le> dayOfYear y m d \<and> dayOfYear y m d \<le> 366 \<and>
         set (format_0YYDDDD (Date y m d)) \<subseteq> set ''0123456789'' \<and>
         length (format_0YYDDDD (Date y m d)) = 6 \<and>
         (\<forall>seg s. payment_date seg = Date y m d \<and> Segment_toString seg = Inr s \<longrightarrow>
            take 6 (drop 13 s) = format_0YYDDDD (Date y m d))"
proof -
  have len: "length (format_0YYDDDD (Date y m d)) = 6"
    using assms by (rule format_valid_length)
  have doy: "dayOfYear y m d \<le> 366"
    using assms by (rule dayOfYear_le)
  have "1 \<le> dayOfYear y m d"
    using assms by (simp add: valid_date_def dayOfYear_def)
  moreover have "length (zeroFill (y mod 100) 2) = 2"
    using length_digits_lt100 [of "y mod 100"] by (simp add: length_zeroFill)
  moreover have "length (zeroFill (dayOfYear y m d) 3) = 3"
    using length_digits_lt1000 [of "dayOfYear y m d"] doy by (simp add: length_zeroFill)
  moreover have "\<forall>seg s. payment_date seg = Date y m d \<and> Segment_toString seg = Inr s \<longrightarrow>
            take 6 (drop 13 s) = format_0YYDDDD (Date y m d)"
    using payment_date_in_segment len by metis
  ultimately show ?thesis
    using len doy format_valid_digits [of y m d] by simp
qed

theorem payment_date_field_witness:
  "valid_date 2021 3 15 \<and>
   format_0YYDDDD (Date 2021 3 15) = ''0'' @ ''21'' @ ''074'' \<and>
   zeroFill (2021 mod 100) 2 = ''21'' \<and> zeroFill (dayOfYear 2021 3 15) 3 = ''074'' \<and>
   dayOfYear 2021 3 15 = 74 \<and>
   length (format_0YYDDDD (Date 2021 3 15)) = 6 \<and>
   payment_date ex_segment = Date 2021 3 15 \<and>
   Segment_toString ex_segment = Inr ex_segment_text \<and>
   take 6 (drop 13 ex_segment_text) = format_0YYDDDD (Date 2021 3 15)"
proof -
  have v: "valid_date 2021 3 15"
    by (simp add: valid_date_def daysInMonth_def)
  have p: "payment_date ex_segment = Date 2021 3 15"
    by (simp add: ex_segment_def)
  have z: "zeroFill (2021 mod 100) 2 = ''21''" "dayOfYear 2021 3 15 = 74"
    "zeroFill (dayOfYear 2021 3 15) 3 = ''074''"
    by (simp_all add: zeroFill_def dayOfYear_def daysInMonth_def leap_def upt_rec
        digits.simps digit_char_def)
  show ?thesis
    using payment_date_field [OF v] v p z ex_segment_eval by simp
qed

text \<open>
  C2 as stated fails: 15 March 2021 renders as \<^verbatim>\<open>021074\<close>, which is 6 characters.
\<close>

theorem payment_date_seven_counterexample:
  "valid_date 2021 3 15 \<and> format_0YYDDDD (Date 2021 3 15) = ''021074'' \<and>
   length (format_0YYDDDD (Date 2021 3 15)) \<noteq> 7"
  by (simp add: valid_date_def daysInMonth_def zeroFill_def dayOfYear_def leap_def upt_rec
      digits.simps digit_char_def)

text \<open>
  C3. In every conversion run whose loop reaches the end of data, the sequence numbers
  rise by 1 in emission order: the Header has 1, the Detail records have 2, 3, ... in
  the order they were accepted, and the Trailer has 2 plus the number of accepted rows.
  The sequence field of each rendered record (nine characters after the type) shows that
  number, and the file holds the Header, the Detail records in order and the Trailer.
\<close>

theorem sequence_numbers:
  assumes "end_of_data ws e"
    and "assemble parse now ws mode = Some (Inr (header, recs, t))"
  shows "count header = 1 \<and> map count recs = [2 ..< 2 + length recs] \<and>
         count t = 2 + length recs \<and>
         length recs = length (filter (accepted ws) [8..<e]) \<and>
         (\<forall>s. ACHHeader_toString header = Inr s \<longrightarrow> take 9 (drop 1 s) = zeroFill 1 9) \<and>
         (\<forall>i s. i < length recs \<and> ACHBasicPayment_toString (recs ! i) = Inr s \<longrightarrow>
            take 9 (drop 1 s) = zeroFill (2 + i) 9) \<and>
         (\<forall>s. ACHTrailer_toString t = Inr s \<longrightarrow>
            take 9 (drop 1 s) = zeroFill (2 + length recs) 9) \<and>
         (thrown (write_file header recs t) = None \<longrightarrow>
            out_file (write_file header recs t) =
              Some (projr (ACHHeader_toString header) @ delimiter @
                    concat (map (\<lambda>b. projr (ACHBasicPayment_toString b) @ delimiter) recs) @
                    projr (ACHTrailer_toString t)))"
proof -
  note a = assemble_Inr [OF assms]
  have h: "count header = 1" and r: "map count recs = [2 ..< 2 + length recs]"
    and t: "count t = 2 + length recs"
    and n: "length recs = length (filter (accepted ws) [8..<e])"
    using a by simp_all
  have nth: "count (recs ! i) = 2 + i" if "i < length recs" for i
  proof -
    have "count (recs ! i) = map count recs ! i"
      using that by simp
    also have "\<dots> = 2 + i"
      unfolding r using that by (rule upt_nth_offset)
    finally show ?thesis .
  qed
  have "\<forall>s. ACHHeader_toString header = Inr s \<longrightarrow> take 9 (drop 1 s) = zeroFill 1 9"
    using ACHHeader_sequence_field [of header] h by simp
  moreover have "\<forall>i s. i < length recs \<and> ACHBasicPayment_toString (recs ! i) = Inr s \<longrightarrow>
            take 9 (drop 1 s) = zeroFill (2 + i) 9"
    using ACHBasicPayment_sequence_field nth by metis
  moreover have "\<forall>s. ACHTrailer_toString t = Inr s \<longrightarrow>
            take 9 (drop 1 s) = zeroFill (2 + length recs) 9"
    using ACHTrailer_sequence_field [of t] t by simp
  ultimately show ?thesis
    using h r t n write_file_content [of header recs t] by blast
qed

theorem sequence_numbers_witness:
  "end_of_data ex_sheet 10 \<and>
   assemble ex_parse ex_now ex_sheet ''D'' =
     Some (Inr (new_header ex_now ex_sheet, [ex_payment ''D''], ex_trailer)) \<and>
   count (new_header ex_now ex_sheet) = 1 \<and> map count [ex_payment ''D''] = [2] \<and>
   count ex_trailer = 3 \<and> filter (accepted ex_sheet) [8..<10] = [8] \<and>
   ACHHeader_toString (new_header ex_now ex_sheet) = Inr ex_header_text \<and>
   take 9 (drop 1 ex_header_text) = ''000000001'' \<and>
   ACHBasicPayment_toString ([ex_payment ''D''] ! 0) = Inr ex_payment_text \<and>
   take 9 (drop 1 ex_payment_text) = ''000000002'' \<and>
   ACHTrailer_toString ex_trailer = Inr ex_trailer_text \<and>
   take 9 (drop 1 ex_trailer_text) = ''000000003'' \<and>
   write_file (new_header ex_now ex_sheet) [ex_payment ''D''] ex_trailer =
     \<lparr>out_file = Some (ex_header_text @ delimiter @ ex_payment_text @ delimiter @ ex_trailer_text),
      thrown = None\<rparr>"
proof -
  note t = sequence_numbers [OF ex_end_of_data ex_assemble [of ex_now "''D''"]]
  have "take 9 (drop 1 ex_header_text) = ''000000001''"
    "take 9 (drop 1 ex_payment_text) = ''000000002''"
    "take 9 (drop 1 ex_trailer_text) = ''000000003''"
    by (simp_all add: ex_header_text_def ex_payment_text_def ex_trailer_text_def)
  moreover have "count (new_header ex_now ex_sheet) = 1" "map count [ex_payment ''D''] = [2]"
    "count ex_trailer = 3"
    using t by simp_all
  ultimately show ?thesis
    using ex_end_of_data ex_assemble ex_accepted_rows ex_header_eval ex_payment_eval
      ex_trailer_eval ex_write_file
    by simp
qed

text \<open>
  C5 (amended). Alphanumeric formatting has no check of its own, yet a value whose string
  form is longer than the field width is not returned unpadded: the padding count
  \<^verbatim>\<open>n - w.length\<close> is negative, \<^verbatim>\<open>" ".repeat\<close> throws a RangeError, and the
  call returns no string at all.
\<close>

theorem alphanumeric_too_wide:
  assumes "toString v = Inr w" and "n < length w"
  shows "alphanumeric v n = Inl RangeError"
  using assms by (rule alphanumeric_overflow)

theorem alphanumeric_too_wide_witness:
  "toString (JStr ''ABCD'') = Inr ''ABCD'' \<and> 3 < length ''ABCD'' \<and>
   alphanumeric (JStr ''ABCD'') 3 = Inl RangeError"
  using alphanumeric_too_wide [of "JStr ''ABCD''" "''ABCD''" 3] by simp

text \<open>
  C5 as stated fails: for the four-letter value \<^verbatim>\<open>"ABCD"\<close> and width 3 the claim has
  the raw string returned, and the code throws.
\<close>

theorem alphanumeric_unpadded_counterexample:
  "alphanumeric (JStr ''ABCD'') 3 \<noteq> Inr ''ABCD''"
  by (simp add: alphanumeric_def bindE_def repeat_def)

text \<open>
  C6 (amended). A value whose rendered form is longer than the field width makes each
  Formatter function fail with an error, the RangeError of \<^verbatim>\<open>repeat\<close> with a negative
  count (the spec's FieldOverflow), instead of returning a string; every string a Formatter
  function returns has exactly the declared width; and the failure aborts the run: a
  failed field fails the rendering of its record, a failed segment that of its payment
  record, a failed record leaves the run with the exception, and a failed transit field
  in the loop leaves the run before the output file is opened. The payment date is the one
  field that no Formatter function renders: \<^verbatim>\<open>moment\<close> formats it with no check of
  its width, and it has its 6 characters when the date is valid.
\<close>

theorem field_overflow:
  "(toString v = Inr w \<and> n < length w \<longrightarrow>
      alphanumeric v n = Inl RangeError \<and> numeric v n = Inl RangeError) \<and>
   (toFixed2 v = Inr fx \<and> n < length (replace_dot fx) \<longrightarrow> money v n = Inl RangeError) \<and>
   (alphanumeric v n = Inr s \<longrightarrow> length s = n) \<and>
   (numeric v n = Inr s \<longrightarrow> length s = n) \<and>
   (money v n = Inr s \<longrightarrow> length s = n) \<and>
   (isValid m \<longrightarrow> length (format_0YYDDDD m) = 6) \<and>
   (Inl err \<in> set xs \<longrightarrow> isl (join xs)) \<and>
   (seg \<in> set (segments b) \<and> isl (Segment_toString seg) \<longrightarrow> isl (ACHBasicPayment_toString b)) \<and>
   (assemble parse now ws mode = Some (Inr (header, recs, t)) \<and>
    (isl (ACHHeader_toString header) \<or> (\<exists>b \<in> set recs. isl (ACHBasicPayment_toString b)) \<or>
     isl (ACHTrailer_toString t)) \<longrightarrow>
      (\<exists>out e. writeACHFile parse now ws mode = Some out \<and> thrown out = Some e)) \<and>
   (8 \<le> k \<and> (\<forall>j \<in> set [8..<k]. \<not> falsy (cell ws j 1)) \<and> accepted ws k \<and>
    (isl (numeric (cell ws k 3) 4) \<or> isl (numeric (cell ws k 4) 5)) \<longrightarrow>
      (\<exists>e. writeACHFile parse now ws mode = Some \<lparr>out_file = None, thrown = Some e\<rparr>))"
proof -
  have "isValid m \<longrightarrow> length (format_0YYDDDD m) = 6"
    using format_valid_length by (cases m) (simp_all del: format_0YYDDDD.simps)
  then show ?thesis
    using alphanumeric_overflow [of v w n] numeric_overflow [of v w n] money_overflow [of v fx n]
      alphanumeric_length [of v n s] numeric_length [of v n s] money_length [of v n s]
      join_isl [of err xs] ACHBasicPayment_toString_isl [of seg b]
      writeACHFile_render_fails [of parse now ws mode header recs t]
      writeACHFile_loop_fails [of k ws parse now mode]
    by blast
qed

theorem field_overflow_witness:
  "toString (JStr ''ABCD'') = Inr ''ABCD'' \<and> 3 < length ''ABCD'' \<and>
   alphanumeric (JStr ''ABCD'') 3 = Inl RangeError \<and> numeric (JStr ''ABCD'') 3 = Inl RangeError \<and>
   toFixed2 (JNum 12345678901) = Inr ''123456789.01'' \<and>
   10 < length (replace_dot ''123456789.01'') \<and>
   money (JNum 12345678901) 10 = Inl RangeError \<and>
   alphanumeric (JStr ''ABC'') 6 = Inr ''ABC   '' \<and> length ''ABC   '' = 6 \<and>
   numeric (JNum 700) 5 = Inr ''00007'' \<and> length ''00007'' = 5 \<and>
   money (JNum 123450) 10 = Inr ''0000123450'' \<and> length ''0000123450'' = 10 \<and>
   isValid (Date 2021 3 15) \<and> length (format_0YYDDDD (Date 2021 3 15)) = 6 \<and>
   Inl RangeError \<in> set [Inr ''A'', Inl RangeError] \<and> isl (join [Inr ''A'', Inl RangeError]) \<and>
   ex_wide_segment \<in> set (segments ((ex_payment ''D'')\<lparr>segments := [ex_wide_segment]\<rparr>)) \<and>
   Segment_toString ex_wide_segment = Inl RangeError \<and>
   ACHBasicPayment_toString ((ex_payment ''D'')\<lparr>segments := [ex_wide_segment]\<rparr>) = Inl RangeError \<and>
   assemble ex_parse ex_now ex_sheet ''PAD'' =
     Some (Inr (new_header ex_now ex_sheet, [ex_payment ''PAD''], ex_trailer)) \<and>
   ACHBasicPayment_toString (ex_payment ''PAD'') = Inl RangeError \<and>
   writeACHFile ex_parse ex_now ex_sheet ''PAD'' =
     Some \<lparr>out_file = Some (ex_header_text @ delimiter), thrown = Some RangeError\<rparr> \<and>
   accepted ex_sheet_bank 8 \<and> numeric (cell ex_sheet_bank 8 3) 4 = Inl RangeError \<and>
   writeACHFile ex_parse ex_now ex_sheet_bank ''D'' =
     Some \<lparr>out_file = None, thrown = Some RangeError\<rparr>"
proof -
  let ?b = "(ex_payment ''D'')\<lparr>segments := [ex_wide_segment]\<rparr>"
  note t1 = field_overflow [where v = "JStr ''ABCD''" and w = "''ABCD''" and n = 3
      and fx = "[]" and s = "[]" and m = "Date 2021 3 15"
      and xs = "[Inr ''A'', Inl RangeError]" and err = RangeError
      and seg = ex_wide_segment and b = ?b
      and parse = ex_parse and now = ex_now and ws = ex_sheet_bank and mode = "''D''"
      and header = "new_header ex_now ex_sheet" and recs = "[]" and t = ex_trailer and k = 8]
  note t2 = field_overflow [where v = "JNum 12345678901" and w = "[]"
      and fx = "''123456789.01''" and n = 10 and s = "[]" and m = "Date 2021 3 15"
      and xs = "[]" and err = RangeError
      and seg = ex_wide_segment and b = ?b
      and parse = ex_parse and now = ex_now and ws = ex_sheet and mode = "''PAD''"
      and header = "new_header ex_now ex_sheet" and recs = "[ex_payment ''PAD'']"
      and t = ex_trailer and k = 8]
  have h1: "toString (JStr ''ABCD'') = Inr ''ABCD'' \<and> 3 < length ''ABCD''"
    by simp
  have h2: "Inl RangeError \<in> set [Inr ''A'', Inl RangeError]"
    by simp
  have h3: "ex_wide_segment \<in> set (segments ?b) \<and> isl (Segment_toString ex_wide_segment)"
    by (simp add: ex_wide_segment_eval)
  have h4: "(8::nat) \<le> 8 \<and> (\<forall>j \<in> set [8..<8]. \<not> falsy (cell ex_sheet_bank j 1)) \<and>
      accepted ex_sheet_bank 8 \<and>
      (isl (numeric (cell ex_sheet_bank 8 3) 4) \<or> isl (numeric (cell ex_sheet_bank 8 4) 5))"
    by (simp add: ex_bank_accepted ex_bank_cells ex_overflows)
  have h5: "toFixed2 (JNum 12345678901) = Inr ''123456789.01'' \<and>
      10 < length (replace_dot ''123456789.01'')"
    by (simp add: ex_overflows)
  have h6: "assemble ex_parse ex_now ex_sheet ''PAD'' =
      Some (Inr (new_header ex_now ex_sheet, [ex_payment ''PAD''], ex_trailer)) \<and>
      (isl (ACHHeader_toString (new_header ex_now ex_sheet)) \<or>
       (\<exists>b \<in> set [ex_payment ''PAD'']. isl (ACHBasicPayment_toString b)) \<or>
       isl (ACHTrailer_toString ex_trailer))"
    by (simp add: ex_assemble ex_payment_PAD)
  have h7: "isValid (Date 2021 3 15)"
    by (simp add: valid_date_def daysInMonth_def)
  have c1: "alphanumeric (JStr ''ABCD'') 3 = Inl RangeError \<and>
      numeric (JStr ''ABCD'') 3 = Inl RangeError"
    using t1 h1 by blast
  have c2: "isl (join [Inr ''A'', Inl RangeError])"
    using t1 h2 by blast
  have c3: "isl (ACHBasicPayment_toString ?b)"
    using t1 h3 by blast
  have c4: "\<exists>e. writeACHFile ex_parse ex_now ex_sheet_bank ''D'' =
      Some \<lparr>out_file = None, thrown = Some e\<rparr>"
    using t1 h4 by blast
  have c5: "money (JNum 12345678901) 10 = Inl RangeError"
    using t2 h5 by blast
  have c6: "\<exists>out e. writeACHFile ex_parse ex_now ex_sheet ''PAD'' = Some out \<and> thrown out = Some e"
    using t2 h6 by blast
  have c7: "length (format_0YYDDDD (Date 2021 3 15)) = 6"
    using t1 h7 by blast
  show ?thesis
    using c1 c2 c5 c7 h7
    by (simp add: ex_fits ex_wide_segment_eval ex_wide_payment_eval ex_assemble
        ex_payment_PAD ex_writeACHFile_PAD ex_bank_accepted ex_bank_cells ex_overflows
        ex_writeACHFile_bank del: format_0YYDDDD.simps isValid.simps)
qed

text \<open>
  C6 as stated fails at the payment date. The sheet below is the example sheet without
  its payment-date cell: the date parsed from the absent cell is invalid, the segment's
  date field is rendered as the 12 characters \<^verbatim>\<open>Invalid date\<close> in a field of 6, no
  error is raised, and the run completes with a segment of 246 characters in a Detail
  record of 270.
\<close>

theorem invalid_date_counterexample:
  "cell ex_sheet_nodate 5 2 = JNull \<and> ex_parse JNull = Invalid_date \<and>
   format_0YYDDDD Invalid_date = ''Invalid date'' \<and> 6 < length (format_0YYDDDD Invalid_date) \<and>
   Segment_toString ex_invalid_segment = Inr ex_invalid_segment_text \<and>
   take 12 (drop 13 ex_invalid_segment_text) = ''Invalid date'' \<and>
   length ex_invalid_segment_text = 246 \<and>
   writeACHFile ex_parse ex_now ex_sheet_nodate ''D'' =
     Some \<lparr>out_file = Some (ex_header_text @ delimiter @ ex_invalid_payment_text @ delimiter @
                             ex_trailer_text),
           thrown = None\<rparr> \<and>
   length ex_invalid_payment_text = 270"
  by (simp add: ex_nodate_cells ex_parse_def ex_invalid_segment_eval ex_writeACHFile_nodate
      ex_invalid_segment_text_def ex_invalid_payment_text_def)

text \<open>
  C7 (amended). A row whose suspend flag is the string \<^verbatim>\<open>"y"\<close> is not accepted: no
  Detail record is produced for it and the loop's state (sequence counter, running total,
  record count, records so far) goes on unchanged. When the row's customer number is
  truthy the conversion continues with the next row; when it is absent, empty or 0 the
  end-of-data guard, which is tested first, ends the loop at this row.
\<close>

theorem suspended_row:
  assumes "cell ws r 7 = JStr ''y''"
  shows "\<not> accepted ws r \<and>
         payment_loop meta ws r st =
           (if falsy (cell ws r 1) then Some (Inr st) else payment_loop meta ws (r + 1) st)"
  using assms by (simp add: accepted_def payment_loop_end payment_loop_skip)

theorem suspended_row_witness:
  "cell ex_sheet 9 7 = JStr ''y'' \<and> \<not> accepted ex_sheet 9 \<and> \<not> falsy (cell ex_sheet 9 1) \<and>
   payment_loop (ex_meta ''D'') ex_sheet 9 (ex_state ''D'') =
     payment_loop (ex_meta ''D'') ex_sheet (9 + 1) (ex_state ''D'') \<and>
   payment_loop (ex_meta ''D'') ex_sheet (9 + 1) (ex_state ''D'') = Some (Inr (ex_state ''D''))"
  using suspended_row [of ex_sheet 9 "ex_meta ''D''" "ex_state ''D''"]
  by (simp add: ex_sheet_row9 ex_sheet_row10 payment_loop_end)

text \<open>
  C7 as stated fails where it says that the conversion continues with the next row: row 8
  of this sheet has the suspend flag \<^verbatim>\<open>"y"\<close> and no customer number, the loop ends
  there, and the payment of row 9 is never read.
\<close>

theorem suspended_row_counterexample:
  "cell ex_sheet_suspended 8 7 = JStr ''y'' \<and>
   payment_loop (ex_meta ''D'') ex_sheet_suspended 8 initial_state = Some (Inr initial_state) \<and>
   payment_loop (ex_meta ''D'') ex_sheet_suspended (8 + 1) initial_state \<noteq> Some (Inr initial_state)"
  using ex_suspended_from_9 [of "ex_meta ''D''"]
  by (simp add: ex_suspended_cells payment_loop_end)



text \<open>
  C9. A row whose customer-number cell holds the number 0 ends the loop exactly as an
  absent or empty one does: the loop returns with its state as it is, the run returns,
  and it is the run of any sheet that is the same before that row and has an absent or
  empty customer number there, whatever its later rows hold.
\<close>

theorem zero_customer_number_stops:
  assumes "8 \<le> e" and "cell ws e 1 = JNum 0"
  shows "payment_loop meta ws e st = Some (Inr st) \<and>
         (\<forall>ws'. same_upto ws ws' (e - 1) \<and> (cell ws' e 1 = JNull \<or> cell ws' e 1 = JStr '''') \<longrightarrow>
            writeACHFile parse now ws' mode = writeACHFile parse now ws mode) \<and>
         (\<exists>out. writeACHFile parse now ws mode = Some out)"
proof -
  have f: "falsy (cell ws e 1)"
    using assms(2) by simp
  have "payment_loop meta ws e st = Some (Inr st)"
    using f by (rule payment_loop_end)
  moreover have "writeACHFile parse now ws' mode = writeACHFile parse now ws mode"
    if "same_upto ws ws' (e - 1)" and "cell ws' e 1 = JNull \<or> cell ws' e 1 = JStr ''''" for ws'
  proof -
    have "falsy (cell ws' e 1)"
      using that(2) by auto
    with assms(1) f show ?thesis
      using that(1) by (intro writeACHFile_cong)
  qed
  moreover have "\<exists>out. writeACHFile parse now ws mode = Some out"
    using assms(1) f by (rule writeACHFile_returns)
  ultimately show ?thesis
    by blast
qed

theorem zero_customer_number_stops_witness:
  "(8::nat) \<le> 10 \<and> cell ex_sheet_zero 10 1 = JNum 0 \<and>
   payment_loop (ex_meta ''D'') ex_sheet_zero 10 (ex_state ''D'') = Some (Inr (ex_state ''D'')) \<and>
   same_upto ex_sheet_zero ex_sheet (10 - 1) \<and> cell ex_sheet 10 1 = JStr '''' \<and>
   writeACHFile ex_parse ex_now ex_sheet_zero ''D'' = writeACHFile ex_parse ex_now ex_sheet ''D'' \<and>
   writeACHFile ex_parse ex_now ex_sheet_zero ''D'' =
     Some \<lparr>out_file = Some (ex_header_text @ delimiter @ ex_payment_text @ delimiter @ ex_trailer_text),
           thrown = None\<rparr>"
proof -
  have e: "(8::nat) \<le> 10"
    by simp
  note t = zero_customer_number_stops [OF e ex_zero_cell, of "ex_meta ''D''" "ex_state ''D''"
      ex_parse ex_now "''D''"]
  have s: "same_upto ex_sheet_zero ex_sheet (10 - 1)"
    using ex_same_upto_zero by simp
  have c: "cell ex_sheet 10 1 = JStr ''''"
    by (simp add: ex_sheet_row10)
  have w: "writeACHFile ex_parse ex_now ex_sheet ''D'' = writeACHFile ex_parse ex_now ex_sheet_zero ''D''"
    using t s c by blast
  have "payment_loop (ex_meta ''D'') ex_sheet_zero 10 (ex_state ''D'') = Some (Inr (ex_state ''D''))"
    using t by blast
  then show ?thesis
    using s c w ex_zero_cell ex_writeACHFile [of ex_now] by simp
qed

text \<open>
  C10. The rendered Header does not depend on the file date: two sheets with the same
  client number, processing centre and currency code give the same Header text whatever
  the clock says, the stored \<open>file_date\<close> of a Header can be changed without changing
  its text, and the whole run is the same at any clock time.
\<close>

theorem header_without_file_date:
  assumes "cell ws' 2 2 = cell ws 2 2" and "cell ws' 3 2 = cell ws 3 2"
    and "cell ws' 4 2 = cell ws 4 2"
  shows "ACHHeader_toString (new_header now' ws') = ACHHeader_toString (new_header now ws) \<and>
         ACHHeader_toString (h\<lparr>file_date := d\<rparr>) = ACHHeader_toString h \<and>
         writeACHFile parse now' ws mode = writeACHFile parse now ws mode"
  using assms writeACHFile_clock [of parse now' ws mode now]
  by (simp add: ACHHeader_toString_def new_header_def)

theorem header_without_file_date_witness:
  "cell ex_sheet_late 2 2 = cell ex_sheet 2 2 \<and> cell ex_sheet_late 3 2 = cell ex_sheet 3 2 \<and>
   cell ex_sheet_late 4 2 = cell ex_sheet 4 2 \<and>
   ACHHeader_toString (new_header (Date 1999 12 31) ex_sheet_late) = Inr ex_header_text \<and>
   ACHHeader_toString (new_header ex_now ex_sheet) = Inr ex_header_text \<and>
   ACHHeader_toString ((new_header ex_now ex_sheet)\<lparr>file_date := Invalid_date\<rparr>) = Inr ex_header_text \<and>
   writeACHFile ex_parse (Date 1999 12 31) ex_sheet ''D'' = writeACHFile ex_parse ex_now ex_sheet ''D''"
proof -
  have c: "cell ex_sheet_late 2 2 = cell ex_sheet 2 2" "cell ex_sheet_late 3 2 = cell ex_sheet 3 2"
    "cell ex_sheet_late 4 2 = cell ex_sheet 4 2"
    by (simp_all add: ex_late_meta ex_sheet_meta)
  note t = header_without_file_date [OF c, where now' = "Date 1999 12 31" and now = ex_now
      and h = "new_header ex_now ex_sheet" and d = Invalid_date and parse = ex_parse
      and mode = "''D''"]
  show ?thesis
    using t c ex_header_eval [of ex_now] by simp
qed

end
